theory Spec2Isabelle
  imports Main "HOL-Library.Word"
begin

unbundle bit_operations_syntax

section \<open>Region files of world/anvil.py\<close>

text \<open>
  The module keeps a world's chunks in a paged container file. Python integers are
  unbounded and are modelled as \<open>int\<close>; bytes are \<open>8 word\<close>; every exception the
  module can raise is a value of \<open>error\<close>, returned as \<open>Inl\<close>.
\<close>

type_synonym byte = "8 word"

datatype error =
    FileNotFoundError
  | IsADirectoryError
  | Exception string
  | OverflowError
  | AttributeError
  | TypeError
  | IndexError
  | ValueError
  | OSError
  | UnsupportedOperation
  | CodecError

subsection \<open>Integers and bytes\<close>

text \<open>
  \<open>int.from_bytes(bs, 'big')\<close> (unsigned): the empty byte string gives 0.
\<close>

definition from_bytes_big :: "byte list \<Rightarrow> int" where
  "from_bytes_big bs = foldl (\<lambda>acc b. acc * 256 + uint b) 0 bs"

text \<open>
  \<open>v.to_bytes(n, 'big', signed=False)\<close>: OverflowError when \<open>v\<close> is negative or does
  not fit into \<open>n\<close> bytes.
\<close>

definition int_to_bytes :: "nat \<Rightarrow> int \<Rightarrow> error + byte list" where
  "int_to_bytes n v =
     (if v < 0 \<or> 256 ^ n \<le> v then Inl OverflowError
      else Inr (map (\<lambda>k. word_of_int (v div 256 ^ k)) (rev [0..<n])))"

subsection \<open>An open file: its bytes and the position of the next read\<close>

record handle =
  content :: "byte list"
  pos :: nat

definition f_open :: "byte list \<Rightarrow> handle" where
  "f_open bs = \<lparr>content = bs, pos = 0\<rparr>"

definition f_seek :: "nat \<Rightarrow> handle \<Rightarrow> handle" where
  "f_seek p f = f\<lparr>pos := p\<rparr>"

text \<open>
  \<open>f.read(n)\<close> returns at most \<open>n\<close> bytes, fewer at the end of the file, and all the
  remaining bytes when \<open>n\<close> is negative.
\<close>

definition f_read :: "int \<Rightarrow> handle \<Rightarrow> byte list \<times> handle" where
  "f_read n f =
     (let avail = drop (pos f) (content f);
          bs = (if n < 0 then avail else take (nat n) avail)
      in (bs, f\<lparr>pos := pos f + length bs\<rparr>))"

subsection \<open>Sector\<close>

datatype Sector = Sector (offset: int) (count: int)

definition Sector_end :: "Sector \<Rightarrow> int" where
  "Sector_end s = offset s + count s"

definition Sector_lt :: "Sector \<Rightarrow> Sector \<Rightarrow> bool" where
  "Sector_lt s other = (offset s + count s \<le> offset other)"

definition intersects :: "Sector \<Rightarrow> Sector \<Rightarrow> bool" where
  "intersects s other =
     (if offset s \<le> offset other \<and> Sector_end s > offset other then True
      else if offset other \<le> offset s \<and> Sector_end other > offset s then True
      else False)"

definition to_bytes :: "Sector \<Rightarrow> error + byte list" where
  "to_bytes s =
     (case int_to_bytes 3 (offset s) of
        Inl e \<Rightarrow> Inl e
      | Inr b3 \<Rightarrow>
          (case int_to_bytes 1 (count s) of
             Inl e \<Rightarrow> Inl e
           | Inr b1 \<Rightarrow> Inr (b3 @ b1)))"

text \<open>
  One entry of the location table, as the loop of \<open>RegionFile.__init__\<close> reads it:
  three bytes of offset, one byte of count, and a sector only when the offset is past
  the two header pages and the count is positive.
\<close>

definition read_entry :: "handle \<Rightarrow> Sector option \<times> handle" where
  "read_entry f =
     (let (b3, f1) = f_read 3 f;
          offset = from_bytes_big b3;
          (b1, f2) = f_read 1 f1;
          sector_count = from_bytes_big b1
      in (if offset \<ge> 2 \<and> sector_count > 0 then Some (Sector offset sector_count) else None, f2))"

text \<open>The four bytes of an entry, decoded the way \<open>__init__\<close> decodes them.\<close>

definition decode_entry :: "byte list \<Rightarrow> Sector option" where
  "decode_entry bs = fst (read_entry (f_open bs))"

subsection \<open>Ordered insertion: \<open>bisect.insort\<close>\<close>

text \<open>
  \<open>bisect.insort(a, x)\<close> is \<open>insort_right\<close>: a binary search that compares with
  \<open>x < a[mid]\<close>, that is \<open>Sector.__lt__\<close>, then \<open>a.insert(lo, x)\<close>.
\<close>

function bisect_right :: "Sector list \<Rightarrow> Sector \<Rightarrow> nat \<Rightarrow> nat \<Rightarrow> nat" where
  "bisect_right a x lo hi =
     (if lo < hi then
        (let mid = (lo + hi) div 2 in
         if Sector_lt x (a ! mid) then bisect_right a x lo mid
         else bisect_right a x (mid + 1) hi)
      else lo)"
  by pat_completeness auto

termination
  by (relation "measure (\<lambda>(a, x, lo, hi). hi - lo)") auto

declare bisect_right.simps [simp del]

definition bisect_insort :: "Sector list \<Rightarrow> Sector \<Rightarrow> Sector list" where
  "bisect_insort a x = (let lo = bisect_right a x 0 (length a) in take lo a @ x # drop lo a)"

subsection \<open>RegionFile\<close>

text \<open>
  What the path \<open>self.filename\<close> names, and the object's two other slots. \<open>chunks\<close>
  is the numpy array of 1024 objects; \<open>sectors\<close> is \<open>None\<close> until \<open>__init__\<close> has
  read a regular file.
\<close>

datatype node = Missing | Directory | RegularFile "byte list"

record state =
  disk :: node
  chunks :: "Sector option list"
  sectors :: "Sector list option"

definition init_step ::
  "nat \<Rightarrow> handle \<times> Sector option list \<times> Sector list \<Rightarrow> handle \<times> Sector option list \<times> Sector list" where
  "init_step i = (\<lambda>(f, chunks, sectors).
     (case read_entry f of
        (Some sector, f') \<Rightarrow> (f', chunks[i := Some sector], bisect_insort sectors sector)
      | (None, f') \<Rightarrow> (f', chunks[i := None], sectors)))"

definition RegionFile_init :: "node \<Rightarrow> error + state" where
  "RegionFile_init d =
     (case d of
        Missing \<Rightarrow> Inl FileNotFoundError
      | Directory \<Rightarrow> Inr \<lparr>disk = d, chunks = replicate 1024 None, sectors = None\<rparr>
      | RegularFile bs \<Rightarrow>
          (let size = length bs in
           if size < 8192 \<or> size mod 4096 \<noteq> 0 then Inl (Exception ''Invalid region file!'')
           else
             (let (f, chunks, sectors) =
                    fold init_step [0..<1024] (f_open bs, replicate 1024 None, [Sector 0 2])
              in Inr \<lparr>disk = d, chunks = chunks, sectors = Some sectors\<rparr>)))"

text \<open>
  \<open>sect != None\<close>: the class defines \<open>__eq__\<close> and no \<open>__ne__\<close>, so Python evaluates
  \<open>Sector.__eq__(sect, None)\<close> and negates it; \<open>__eq__\<close> reads \<open>other.offset\<close>, which
  \<open>None\<close> does not have. When \<open>sect\<close> is \<open>None\<close> itself the comparison is False.
\<close>

definition ne_None :: "Sector option \<Rightarrow> error + bool" where
  "ne_None v = (case v of None \<Rightarrow> Inr False | Some s \<Rightarrow> Inl AttributeError)"

text \<open>
  \<open>delete_sector\<close>. The file is opened with mode \<open>'rb'\<close>, so the first \<open>f.write\<close>
  raises \<open>io.UnsupportedOperation\<close>; nothing after it runs (there the source also names
  \<open>ind\<close>, which is not defined, and the module's \<open>__null_sector\<close>, which the class body
  mangles). An index outside the table is skipped by the guard.
\<close>

definition delete_sector :: "int \<Rightarrow> bool \<Rightarrow> state \<Rightarrow> (error + unit) \<times> state" where
  "delete_sector index zero_data st =
     (if disk st = Missing then (Inl FileNotFoundError, st)
      else if 0 \<le> index \<and> index < 1024 then
        (let sect = chunks st ! nat index in
         case ne_None sect of
           Inl e \<Rightarrow> (Inl e, st)
         | Inr False \<Rightarrow> (Inr (), st)
         | Inr True \<Rightarrow>
             (case disk st of
                RegularFile bs \<Rightarrow>
                  if length bs < 8192 \<or> length bs mod 4096 \<noteq> 0
                  then (Inl (Exception ''Invalid region file!''), st)
                  else (Inl UnsupportedOperation, st)
              | _ \<Rightarrow> (Inl IsADirectoryError, st)))
      else (Inr (), st))"

text \<open>
  \<open>get_free\<close>. The loop over the adjacent pairs of \<open>self.sectors\<close> returns at the
  first gap that is wide enough.
\<close>

fun get_free_scan :: "Sector list \<Rightarrow> int \<Rightarrow> Sector option" where
  "get_free_scan (s # t # rest) sector_count =
     (let dist_between = offset t - Sector_end s in
      if dist_between \<ge> sector_count then Some (Sector (Sector_end s) sector_count)
      else get_free_scan (t # rest) sector_count)"
| "get_free_scan _ sector_count = None"

text \<open>
  \<open>math.ceil(size_in_bytes / 4096)\<close>: the quotient is a float, which is exact for
  \<open>\<bar>size_in_bytes\<bar> \<le> 2 ^ 53\<close> (a division by a power of two); the model is the
  exact ceiling.
\<close>

definition ceil_pages :: "int \<Rightarrow> int" where
  "ceil_pages size_in_bytes = - ((- size_in_bytes) div 4096)"

definition get_free :: "int \<Rightarrow> bool \<Rightarrow> state \<Rightarrow> (error + Sector) \<times> state" where
  "get_free size_in_bytes insert_it st =
     (case sectors st of
        None \<Rightarrow> (Inl TypeError, st)
      | Some ss \<Rightarrow>
          (let sector_count = ceil_pages size_in_bytes in
           case get_free_scan ss sector_count of
             Some sector \<Rightarrow>
               (Inr sector, if insert_it then st\<lparr>sectors := Some (bisect_insort ss sector)\<rparr> else st)
           | None \<Rightarrow>
               (if ss = [] then (Inl IndexError, st)
                else
                  (let end_sector = last ss;
                       sector = Sector (Sector_end end_sector) sector_count
                   in (Inr sector,
                       if insert_it then st\<lparr>sectors := Some (bisect_insort ss sector)\<rparr> else st)))))"

text \<open>The slot of a chunk: \<open>(offsetX & 31) + (offsetZ & 31) * 32\<close>.\<close>

definition slot_index :: "int \<Rightarrow> int \<Rightarrow> int" where
  "slot_index offsetX offsetZ = (offsetX AND 31) + (offsetZ AND 31) * 32"

definition has_chunk :: "int \<Rightarrow> int \<Rightarrow> state \<Rightarrow> error + bool" where
  "has_chunk offsetX offsetZ st =
     (case disk st of
        Missing \<Rightarrow> Inl FileNotFoundError
      | Directory \<Rightarrow> Inl IsADirectoryError
      | RegularFile bs \<Rightarrow>
          (let ind = slot_index offsetX offsetZ;
               f = f_seek (nat (ind * 4)) (f_open bs);
               (b3, f) = f_read 3 f
           in Inr (from_bytes_big b3 \<noteq> 0)))"

text \<open>
  The collaborators outside this module: \<open>nbt.dump\<close>, \<open>nbt.load\<close>, \<open>zlib\<close> and
  \<open>gzip\<close>. Decoding can fail (\<open>CodecError\<close> stands for what they raise).
\<close>

record 'doc codecs =
  nbt_dump :: "'doc \<Rightarrow> byte list"
  nbt_load :: "byte list \<Rightarrow> error + 'doc"
  zlib_compress :: "byte list \<Rightarrow> byte list"
  zlib_decompress :: "byte list \<Rightarrow> error + byte list"
  gzip_decompress :: "byte list \<Rightarrow> error + byte list"

definition bind_err :: "error + 'a \<Rightarrow> ('a \<Rightarrow> error + 'b) \<Rightarrow> error + 'b" where
  "bind_err r k = (case r of Inl e \<Rightarrow> Inl e | Inr v \<Rightarrow> k v)"

definition read_chunk_raw :: "'doc codecs \<Rightarrow> int \<Rightarrow> int \<Rightarrow> state \<Rightarrow> error + byte list option" where
  "read_chunk_raw c offsetX offsetZ st =
     (case disk st of
        Missing \<Rightarrow> Inl FileNotFoundError
      | Directory \<Rightarrow> Inl IsADirectoryError
      | RegularFile bs \<Rightarrow>
          (let ind = slot_index offsetX offsetZ;
               f = f_seek (nat (ind * 4)) (f_open bs);
               (b3, f) = f_read 3 f;
               chunk_offset = from_bytes_big b3
           in if chunk_offset = 0 then Inr None
              else
                (let f = f_seek (nat (chunk_offset * 4096)) f;
                     (b4, f) = f_read 4 f;
                     data_length = from_bytes_big b4;
                     (b1, f) = f_read 1 f;
                     compression_type = from_bytes_big b1
                 in if compression_type = 2
                    then bind_err (zlib_decompress c (fst (f_read (data_length - 1) f))) (\<lambda>d. Inr (Some d))
                    else if compression_type = 1
                    then bind_err (gzip_decompress c (fst (f_read (data_length - 1) f))) (\<lambda>d. Inr (Some d))
                    else if compression_type = 3
                    then Inr (Some (fst (f_read (data_length - 1) f)))
                    else Inr None)))"

definition read_chunk_tag :: "'doc codecs \<Rightarrow> int \<Rightarrow> int \<Rightarrow> state \<Rightarrow> error + 'doc option" where
  "read_chunk_tag c offsetX offsetZ st =
     (case disk st of
        Missing \<Rightarrow> Inl FileNotFoundError
      | Directory \<Rightarrow> Inl IsADirectoryError
      | RegularFile bs \<Rightarrow>
          (let ind = slot_index offsetX offsetZ;
               f = f_seek (nat (ind * 4)) (f_open bs);
               (b3, f) = f_read 3 f;
               chunk_offset = from_bytes_big b3
           in if chunk_offset = 0 then Inr None
              else
                (let f = f_seek (nat (chunk_offset * 4096)) f;
                     (b4, f) = f_read 4 f;
                     data_length = from_bytes_big b4;
                     (b1, f) = f_read 1 f;
                     compression_type = from_bytes_big b1
                 in if compression_type = 2
                    then bind_err (zlib_decompress c (fst (f_read (data_length - 1) f)))
                           (\<lambda>d. bind_err (nbt_load c d) (\<lambda>t. Inr (Some t)))
                    else if compression_type = 1
                    then bind_err (gzip_decompress c (fst (f_read (data_length - 1) f)))
                           (\<lambda>d. bind_err (nbt_load c d) (\<lambda>t. Inr (Some t)))
                    else if compression_type = 3
                    then bind_err (nbt_load c (fst (f_read (data_length - 1) f))) (\<lambda>t. Inr (Some t))
                    else Inr None)))"

text \<open>
  \<open>f.write(bs)\<close> at the handle's position; a position past the end leaves a gap of
  zero bytes.
\<close>

definition f_write :: "byte list \<Rightarrow> handle \<Rightarrow> handle" where
  "f_write bs f =
     (let old = content f;
          padded = old @ replicate (pos f - length old) 0
      in \<lparr>content = take (pos f) padded @ bs @ drop (pos f + length bs) old,
          pos = pos f + length bs\<rparr>)"

text \<open>
  \<open>v.to_bytes(n, 'big', False)\<close>: \<open>signed\<close> is a keyword-only parameter of
  \<open>int.to_bytes\<close>, so the call with three positional arguments raises TypeError.
\<close>

definition int_to_bytes_positional :: "nat \<Rightarrow> int \<Rightarrow> bool \<Rightarrow> error + byte list" where
  "int_to_bytes_positional n v is_signed = Inl TypeError"

text \<open>
  \<open>write_chunk_tag\<close>; \<open>write_record\<close> is its \<open>with open(self.filename, 'wb')\<close>
  block. Mode \<open>'wb'\<close> truncates the file when it is opened. The bytes the block
  writes are the length, the tag and the padding; \<open>chunk_data\<close> itself is not
  written, and neither the location table nor \<open>self.chunks\<close> is updated. \<open>f.seek\<close>
  raises OSError for a negative position and ValueError for one that does not fit into
  64 bits.
\<close>

definition write_record :: "Sector \<Rightarrow> byte list \<Rightarrow> state \<Rightarrow> (error + unit) \<times> state" where
  "write_record free chunk_data st =
     (if disk st = Directory then (Inl IsADirectoryError, st)
      else
        (let f = f_open [];
             st = st\<lparr>disk := RegularFile (content f)\<rparr>;
             offset = offset free * 4096;
             size = count free * 4096;
             data_size = int (length chunk_data) + 5;
             pad_bytes = size - data_size
         in if offset < 0 then (Inl OSError, st)
            else if 2 ^ 63 \<le> offset then (Inl ValueError, st)
            else
              (let f = f_seek (nat offset) f
               in case int_to_bytes_positional 4 (int (length chunk_data) + 1) False of
                    Inl e \<Rightarrow> (Inl e, st)
                  | Inr b4 \<Rightarrow>
                      (let f = f_write b4 f;
                           f = f_write [2] f;
                           st = st\<lparr>disk := RegularFile (content f)\<rparr>
                       in if pad_bytes < 0 then (Inl ValueError, st)
                          else
                            (let f = f_write (replicate (nat pad_bytes) 0) f
                             in (Inr (), st\<lparr>disk := RegularFile (content f)\<rparr>))))))"

definition write_chunk_tag ::
  "'doc codecs \<Rightarrow> int \<Rightarrow> int \<Rightarrow> 'doc \<Rightarrow> state \<Rightarrow> (error + unit) \<times> state" where
  "write_chunk_tag c offsetX offsetZ chunk_tag st =
     (if disk st = Missing then (Inl FileNotFoundError, st)
      else
        (let chunk_data = zlib_compress c (nbt_dump c chunk_tag);
             ind = slot_index offsetX offsetZ
         in case ne_None (chunks st ! nat ind) of
              Inl e \<Rightarrow> (Inl e, st)
            | Inr present \<Rightarrow>
                (case (if present then delete_sector ind False st else (Inr (), st)) of
                   (Inl e, st1) \<Rightarrow> (Inl e, st1)
                 | (Inr _, st1) \<Rightarrow>
                     (case get_free (int (length chunk_data) + 5) True st1 of
                        (Inl e, st2) \<Rightarrow> (Inl e, st2)
                      | (Inr free, st2) \<Rightarrow> write_record free chunk_data st2))))"

subsection \<open>The location table as the file holds it\<close>

text \<open>
  Slot \<open>i\<close> of the table is the four bytes at \<open>4 * i\<close>: \<open>table_offset\<close> and
  \<open>table_count\<close> are its two fields, \<open>entry_at\<close> is what \<open>__init__\<close> makes of
  them, and \<open>insert_entry\<close> is what the loop does to \<open>self.sectors\<close> at that slot.
\<close>

definition entry_at :: "byte list \<Rightarrow> nat \<Rightarrow> Sector option" where
  "entry_at bs i = decode_entry (take 4 (drop (4 * i) bs))"

definition table_offset :: "byte list \<Rightarrow> nat \<Rightarrow> int" where
  "table_offset bs i = from_bytes_big (take 3 (drop (4 * i) bs))"

definition table_count :: "byte list \<Rightarrow> nat \<Rightarrow> int" where
  "table_count bs i = from_bytes_big (take 1 (drop (4 * i + 3) bs))"

definition insert_entry :: "byte list \<Rightarrow> nat \<Rightarrow> Sector list \<Rightarrow> Sector list" where
  "insert_entry bs j ss = (case entry_at bs j of Some s \<Rightarrow> bisect_insort ss s | None \<Rightarrow> ss)"

text \<open>
  A freshly created region file, 8192 zero bytes, and the object \<open>__init__\<close> builds
  from it.
\<close>

definition fresh_state :: state where
  "fresh_state =
     \<lparr>disk = RegularFile (replicate 8192 0), chunks = replicate 1024 None,
      sectors = Some [Sector 0 2]\<rparr>"

text \<open>
  Stand-ins for the collaborators, for runs on concrete files: documents are their own
  bytes and nothing is compressed.
\<close>

definition plain_codecs :: "byte list codecs" where
  "plain_codecs =
     \<lparr>nbt_dump = (\<lambda>d. d), nbt_load = Inr, zlib_compress = (\<lambda>b. b),
      zlib_decompress = Inr, gzip_decompress = Inr\<rparr>"

text \<open>
  Two region files: one of two pages whose slot 0 has offset 1 and count 1, and one of
  three pages whose slot 0 points at page 2.
\<close>

definition offset_one_file :: "byte list" where
  "offset_one_file = [0, 0, 1, 1] @ replicate 8188 0"

definition one_chunk_file :: "byte list" where
  "one_chunk_file = [0, 0, 2, 1] @ replicate 12284 0"

text \<open>
  A file of three pages whose slot 0 points at page 2, where a record of length 1
  carries the compression tag 9; and the tag byte of the record at a page offset.
\<close>

definition unknown_tag_file :: "byte list" where
  "unknown_tag_file = [0, 0, 2, 1] @ replicate 8188 0 @ [0, 0, 0, 1, 9] @ replicate 4091 0"

definition record_tag :: "byte list \<Rightarrow> int \<Rightarrow> int" where
  "record_tag bs chunk_offset = from_bytes_big (take 1 (drop (nat (chunk_offset * 4096) + 4) bs))"

subsection \<open>The allocator: its invariant and first fit\<close>

text \<open>The sector \<open>get_free\<close> returns for a list of sectors and a page count.\<close>

definition alloc_sector :: "Sector list \<Rightarrow> int \<Rightarrow> Sector" where
  "alloc_sector ss sector_count =
     (case get_free_scan ss sector_count of
        Some sector \<Rightarrow> sector
      | None \<Rightarrow> Sector (Sector_end (last ss)) sector_count)"

text \<open>
  The list \<open>self.sectors\<close> as the allocator expects it: seeded with \<open>Sector(0, 2)\<close>,
  every sector of at least one page, each ending at or before the start of every later
  one. \<open>first_fit ss s\<close>: \<open>s\<close> intersects no sector of \<open>ss\<close>, starts at page 2 or
  later, and a sector of the same count at any smaller page from 2 on would intersect one.
\<close>

definition sectors_ok :: "Sector list \<Rightarrow> bool" where
  "sectors_ok ss =
     (ss \<noteq> [] \<and> hd ss = Sector 0 2 \<and> (\<forall>s\<in>set ss. 0 < count s) \<and> sorted_wrt Sector_lt ss)"

definition first_fit :: "Sector list \<Rightarrow> Sector \<Rightarrow> bool" where
  "first_fit ss s =
     ((\<forall>t\<in>set ss. \<not> intersects s t) \<and> 2 \<le> offset s \<and>
      (\<forall>k\<in>{2..<offset s}. \<exists>t\<in>set ss. intersects (Sector k (count s)) t))"

text \<open>
  Successive \<open>get_free(n, True)\<close> calls with nothing deleted in between: for each call
  the list it found and the sector it returned; the first exception ends the run.
\<close>

fun get_free_seq :: "int list \<Rightarrow> state \<Rightarrow> error + (Sector list \<times> Sector) list" where
  "get_free_seq [] st = Inr []"
| "get_free_seq (n # ns) st =
     (case get_free n True st of
        (Inl e, st') \<Rightarrow> Inl e
      | (Inr sector, st') \<Rightarrow>
          (case get_free_seq ns st' of
             Inl e \<Rightarrow> Inl e
           | Inr tr \<Rightarrow> Inr ((case sectors st of None \<Rightarrow> [] | Some ss \<Rightarrow> ss, sector) # tr)))"

text \<open>
  No two populated slots of \<open>chunks\<close> hold sectors that intersect: what a table
  written by non-overlapping allocations satisfies.
\<close>

definition chunks_disjoint :: "Sector option list \<Rightarrow> bool" where
  "chunks_disjoint cs =
     (\<forall>i\<in>{..<length cs}. \<forall>j\<in>{..<length cs}. i \<noteq> j \<longrightarrow>
        (case (cs ! i, cs ! j) of
           (Some s, Some t) \<Rightarrow> \<not> intersects s t
         | _ \<Rightarrow> True))"

text \<open>
  More region files. \<open>two_chunk_file\<close>, seven pages: slot 0 holds pages 5 to 6 and
  slot 1 holds page 2. \<open>unsorted_file\<close>, twelve pages: slot 0 holds pages 5 to 6 and
  slot 1 pages 2 to 11, which overlap. \<open>overlap_file\<close>, seven pages: slot 0 holds pages
  2 to 6 and slot 1 page 3, inside them. \<open>slot_33_file\<close>, two pages: slot 33 has
  offset 1 and count 1.
\<close>

definition two_chunk_file :: "byte list" where
  "two_chunk_file = [0, 0, 5, 2, 0, 0, 2, 1] @ replicate 28664 0"

definition unsorted_file :: "byte list" where
  "unsorted_file = [0, 0, 5, 2, 0, 0, 2, 10] @ replicate 49144 0"

definition overlap_file :: "byte list" where
  "overlap_file = [0, 0, 2, 5, 0, 0, 3, 1] @ replicate 28664 0"

definition slot_33_file :: "byte list" where
  "slot_33_file = replicate 132 0 @ [0, 0, 1, 1] @ replicate 8056 0"

section \<open>Bytes and entries\<close>

lemma be3_arith:
  fixes v :: int
  shows "65536 * (v div 65536) + v div 256 mod 256 * 256 + v mod 256 = v"
proof -
  have b: "v div 65536 = v div 256 div 256"
    by (simp add: zdiv_zmult2_eq)
  have c: "v div 256 = (v div 256 div 256) * 256 + v div 256 mod 256"
    by simp
  have d: "v = (v div 256) * 256 + v mod 256"
    by simp
  show ?thesis using b c d by linarith
qed

lemma from_bytes_big_3:
  "0 \<le> v \<Longrightarrow> v < 16777216 \<Longrightarrow>
   from_bytes_big [word_of_int (v div 65536), word_of_int (v div 256), word_of_int v] = v"
  by (simp add: from_bytes_big_def uint_word_of_int take_bit_eq_mod be3_arith)

lemma from_bytes_big_1: "0 \<le> v \<Longrightarrow> v < 256 \<Longrightarrow> from_bytes_big [word_of_int v] = v"
  by (simp add: from_bytes_big_def uint_word_of_int take_bit_eq_mod)

lemma rev_upt_3: "rev [0..<3] = [2, 1, 0::nat]"
  by (simp add: upt_rec numeral_3_eq_3)

lemma to_bytes_fits:
  assumes "0 \<le> offset s" "offset s < 16777216" "0 \<le> count s" "count s < 256"
  shows "to_bytes s = Inr [word_of_int (offset s div 65536), word_of_int (offset s div 256),
            word_of_int (offset s), word_of_int (count s)]"
  using assms by (simp add: to_bytes_def int_to_bytes_def rev_upt_3)

lemma decode_entry_4:
  "decode_entry [a, b, c, d] =
     (if from_bytes_big [a, b, c] \<ge> 2 \<and> from_bytes_big [d] > 0
      then Some (Sector (from_bytes_big [a, b, c]) (from_bytes_big [d])) else None)"
  by (simp add: decode_entry_def read_entry_def f_open_def f_read_def Let_def)

text \<open>
  C9. Encoding a sector whose offset does not fit into three bytes, or whose count
  does not fit into one, fails with OverflowError: \<open>to_bytes\<close> never returns
  truncated bytes for it.
\<close>

theorem to_bytes_overflow:
  "2 ^ 24 \<le> offset s \<or> 256 \<le> count s \<Longrightarrow> to_bytes s = Inl OverflowError"
  by (auto simp: to_bytes_def int_to_bytes_def split: sum.splits)

theorem to_bytes_overflow_witness:
  "(2::int) ^ 24 \<le> offset (Sector 16777216 1) \<and> to_bytes (Sector 16777216 1) = Inl OverflowError \<and>
   (256::int) \<le> count (Sector 2 256) \<and> to_bytes (Sector 2 256) = Inl OverflowError"
  using to_bytes_overflow [of "Sector 16777216 1"] to_bytes_overflow [of "Sector 2 256"]
  by simp

text \<open>
  C8, as the code has it. For \<open>0 \<le> offset < 2 ^ 24\<close> and \<open>0 < count < 256\<close> the
  sector encodes to four bytes whose two big-endian fields read back as exactly
  \<open>offset\<close> and \<open>count\<close>; the decoding of \<open>__init__\<close> makes \<open>Sector(offset, count)\<close>
  of them when \<open>offset \<ge> 2\<close>, and an empty slot when the offset is 0 or 1.
\<close>

theorem sector_entry_roundtrip:
  assumes "0 \<le> off" "off < 2 ^ 24" "0 < cnt" "cnt < 256"
  shows "\<exists>bs. to_bytes (Sector off cnt) = Inr bs \<and> length bs = 4 \<and>
           from_bytes_big (take 3 bs) = off \<and> from_bytes_big (drop 3 bs) = cnt \<and>
           decode_entry bs = (if 2 \<le> off then Some (Sector off cnt) else None)"
proof -
  let ?bs = "[word_of_int (off div 65536), word_of_int (off div 256), word_of_int off,
              word_of_int cnt] :: byte list"
  have enc: "to_bytes (Sector off cnt) = Inr ?bs"
    using assms to_bytes_fits [of "Sector off cnt"] by simp
  have o: "from_bytes_big (take 3 ?bs) = off"
    using assms from_bytes_big_3 [of off] by simp
  have c: "from_bytes_big (drop 3 ?bs) = cnt"
    using assms from_bytes_big_1 [of cnt] by simp
  have "decode_entry ?bs = (if 2 \<le> off then Some (Sector off cnt) else None)"
    using o c assms by (simp add: decode_entry_4)
  with enc o c show ?thesis by simp
qed

theorem sector_entry_roundtrip_witness:
  "to_bytes (Sector 70000 3) = Inr [1, 17, 112, 3] \<and>
   decode_entry [1, 17, 112, 3] = Some (Sector 70000 3)"
proof -
  have enc: "to_bytes (Sector 70000 3) = Inr [1, 17, 112, 3]"
    by (simp add: to_bytes_def int_to_bytes_def rev_upt_3)
  from sector_entry_roundtrip [of 70000 3] enc show ?thesis
    by auto
qed

theorem sector_entry_roundtrip_counterexample:
  "to_bytes (Sector 1 1) = Inr [0, 0, 1, 1] \<and> decode_entry [0, 0, 1, 1] = None"
  by (simp add: to_bytes_def int_to_bytes_def rev_upt_3 decode_entry_4 from_bytes_big_def)

section \<open>Ordered insertion and first fit\<close>

lemma intersects_iff:
  "intersects s t \<longleftrightarrow>
     (offset s \<le> offset t \<and> offset t < offset s + count s) \<or>
     (offset t \<le> offset s \<and> offset s < offset t + count t)"
  by (simp add: intersects_def Sector_end_def)

lemma alloc_sector_single: "alloc_sector [a] n = Sector (Sector_end a) n"
  by (simp add: alloc_sector_def)

lemma alloc_sector_Cons2:
  "alloc_sector (a # b # rest) n =
     (if n \<le> offset b - Sector_end a then Sector (Sector_end a) n else alloc_sector (b # rest) n)"
  by (simp add: alloc_sector_def Let_def split: option.splits)

lemma get_free_scan_count: "get_free_scan ss n = Some s \<Longrightarrow> count s = n"
  by (induction ss n rule: get_free_scan.induct) (auto simp: Let_def split: if_splits)

lemma alloc_count: "count (alloc_sector ss n) = n"
  by (auto simp: alloc_sector_def get_free_scan_count split: option.splits)

lemma alloc_after_head:
  assumes "sorted_wrt Sector_lt (a # rest)" "\<forall>s\<in>set (a # rest). 0 < count s"
  shows "Sector_end a \<le> offset (alloc_sector (a # rest) n)"
  using assms
proof (induction rest arbitrary: a)
  case Nil
  then show ?case by (simp add: alloc_sector_single)
next
  case (Cons b rest)
  have "Sector_end b \<le> offset (alloc_sector (b # rest) n)"
    using Cons.prems by (intro Cons.IH) simp_all
  moreover have "Sector_end a \<le> offset b" "0 < count b"
    using Cons.prems by (simp_all add: Sector_lt_def Sector_end_def)
  ultimately show ?case
    by (simp add: alloc_sector_Cons2 Sector_end_def)
qed

lemma alloc_no_intersect:
  assumes "sorted_wrt Sector_lt (a # rest)" "\<forall>s\<in>set (a # rest). 0 < count s" "0 < n"
    and "t \<in> set (a # rest)"
  shows "\<not> intersects (alloc_sector (a # rest) n) t"
  using assms
proof (induction rest arbitrary: a)
  case Nil
  then show ?case
    by (simp add: alloc_sector_single intersects_iff Sector_end_def)
next
  case (Cons b rest)
  have ab: "Sector_end a \<le> offset b" "0 < count a" "0 < count b"
    using Cons.prems by (simp_all add: Sector_lt_def Sector_end_def)
  have later: "offset b \<le> offset u" if "u \<in> set (b # rest)" for u
    using that Cons.prems(1) ab by (auto simp: Sector_lt_def)
  show ?case
  proof (cases "n \<le> offset b - Sector_end a")
    case True
    then have r: "alloc_sector (a # b # rest) n = Sector (Sector_end a) n"
      by (simp add: alloc_sector_Cons2)
    show ?thesis
    proof (cases "t = a")
      case True
      then show ?thesis using ab Cons.prems(3) by (simp add: r intersects_iff Sector_end_def)
    next
      case False
      then have "t \<in> set (b # rest)" using Cons.prems(4) by simp
      from later [OF this] \<open>n \<le> offset b - Sector_end a\<close> Cons.prems(3) show ?thesis
        by (simp add: r intersects_iff Sector_end_def)
    qed
  next
    case False
    then have r: "alloc_sector (a # b # rest) n = alloc_sector (b # rest) n"
      by (simp add: alloc_sector_Cons2)
    show ?thesis
    proof (cases "t = a")
      case True
      have "Sector_end b \<le> offset (alloc_sector (b # rest) n)"
        using Cons.prems by (intro alloc_after_head) simp_all
      then show ?thesis using ab True
        by (simp add: r intersects_iff Sector_end_def)
    next
      case False
      then have "t \<in> set (b # rest)" using Cons.prems(4) by simp
      then show ?thesis
        using Cons.prems unfolding r by (intro Cons.IH) simp_all
    qed
  qed
qed

lemma alloc_minimal:
  assumes "sorted_wrt Sector_lt (a # rest)" "\<forall>s\<in>set (a # rest). 0 < count s" "0 < n"
    and "offset a \<le> k" "k < offset (alloc_sector (a # rest) n)"
  shows "\<exists>t\<in>set (a # rest). intersects (Sector k n) t"
  using assms
proof (induction rest arbitrary: a)
  case Nil
  then show ?case
    by (simp add: alloc_sector_single intersects_iff Sector_end_def)
next
  case (Cons b rest)
  show ?case
  proof (cases "k < Sector_end a")
    case True
    then have "intersects (Sector k n) a"
      using Cons.prems(4) by (simp add: intersects_iff Sector_end_def)
    then show ?thesis by auto
  next
    case beyond: False
    then have gap: "\<not> n \<le> offset b - Sector_end a"
      using Cons.prems(5) by (auto simp: alloc_sector_Cons2)
    then have r: "alloc_sector (a # b # rest) n = alloc_sector (b # rest) n"
      by (simp add: alloc_sector_Cons2)
    show ?thesis
    proof (cases "k < offset b")
      case True
      then have "intersects (Sector k n) b"
        using beyond gap by (simp add: intersects_iff)
      then show ?thesis by auto
    next
      case False
      then have "\<exists>t\<in>set (b # rest). intersects (Sector k n) t"
        using Cons.prems unfolding r by (intro Cons.IH) simp_all
      then show ?thesis by auto
    qed
  qed
qed

lemma bisect_right_partition:
  "lo \<le> hi \<Longrightarrow> hi \<le> length a \<Longrightarrow>
     (\<forall>i<lo. \<not> Sector_lt x (a ! i)) \<Longrightarrow>
     (\<forall>i. hi \<le> i \<and> i < length a \<longrightarrow> Sector_lt x (a ! i)) \<Longrightarrow>
     (\<forall>i j. i < j \<longrightarrow> j < length a \<longrightarrow> Sector_lt x (a ! i) \<longrightarrow> Sector_lt x (a ! j)) \<Longrightarrow>
     lo \<le> bisect_right a x lo hi \<and> bisect_right a x lo hi \<le> hi \<and>
     (\<forall>i<bisect_right a x lo hi. \<not> Sector_lt x (a ! i)) \<and>
     (\<forall>i. bisect_right a x lo hi \<le> i \<and> i < length a \<longrightarrow> Sector_lt x (a ! i))"
proof (induction a x lo hi rule: bisect_right.induct)
  case (1 a x lo hi)
  note mono = "1.prems"(5) [rule_format]
  show ?case
  proof (cases "lo < hi")
    case False
    then have "bisect_right a x lo hi = lo"
      by (subst bisect_right.simps) simp
    then show ?thesis
      using "1.prems" False by auto
  next
    case True
    define mid where "mid = (lo + hi) div 2"
    have mid: "lo \<le> mid" "mid < hi" using True by (simp_all add: mid_def)
    show ?thesis
    proof (cases "Sector_lt x (a ! mid)")
      case lt: True
      have eq: "bisect_right a x lo hi = bisect_right a x lo mid"
        using True lt by (simp add: bisect_right.simps [of a x lo hi] mid_def Let_def)
      have above: "\<forall>i. mid \<le> i \<and> i < length a \<longrightarrow> Sector_lt x (a ! i)"
      proof (intro allI impI)
        fix i assume i: "mid \<le> i \<and> i < length a"
        show "Sector_lt x (a ! i)"
        proof (cases "i = mid")
          case True then show ?thesis using lt by simp
        next
          case False
          then have "mid < i" using i by simp
          from mono [OF this] i lt show ?thesis by simp
        qed
      qed
      have "lo \<le> bisect_right a x lo mid \<and> bisect_right a x lo mid \<le> mid \<and>
         (\<forall>i<bisect_right a x lo mid. \<not> Sector_lt x (a ! i)) \<and>
         (\<forall>i. bisect_right a x lo mid \<le> i \<and> i < length a \<longrightarrow> Sector_lt x (a ! i))"
        using True lt mid "1.prems" above
        by (intro "1.IH"(1) [OF _ mid_def]) simp_all
      then show ?thesis using mid by (simp add: eq)
    next
      case nlt: False
      have eq: "bisect_right a x lo hi = bisect_right a x (mid + 1) hi"
        using True nlt by (simp add: bisect_right.simps [of a x lo hi] mid_def Let_def)
      have below: "\<forall>i<mid + 1. \<not> Sector_lt x (a ! i)"
      proof (intro allI impI)
        fix i assume i: "i < mid + 1"
        show "\<not> Sector_lt x (a ! i)"
        proof (cases "i = mid")
          case True then show ?thesis using nlt by simp
        next
          case False
          then have "i < mid" using i by simp
          moreover have "mid < length a" using mid "1.prems"(2) by simp
          ultimately show ?thesis using mono [of i mid] nlt by blast
        qed
      qed
      have "mid + 1 \<le> bisect_right a x (mid + 1) hi \<and> bisect_right a x (mid + 1) hi \<le> hi \<and>
         (\<forall>i<bisect_right a x (mid + 1) hi. \<not> Sector_lt x (a ! i)) \<and>
         (\<forall>i. bisect_right a x (mid + 1) hi \<le> i \<and> i < length a \<longrightarrow> Sector_lt x (a ! i))"
        using True nlt mid "1.prems" below
        by (intro "1.IH"(2) [OF _ mid_def]) simp_all
      then show ?thesis using mid by (simp add: eq)
    qed
  qed
qed

lemma set_bisect_insort: "set (bisect_insort a x) = insert x (set a)"
proof -
  have "set (take n a) \<union> set (drop n a) = set a" for n
    by (metis append_take_drop_id set_append)
  then show ?thesis by (auto simp: bisect_insort_def Let_def)
qed

lemma sectors_ok_Cons: "sectors_ok ss \<Longrightarrow> \<exists>rest. ss = Sector 0 2 # rest"
  by (cases ss) (simp_all add: sectors_ok_def)

lemma alloc_first_fit:
  assumes "sectors_ok ss" "0 < n"
  shows "first_fit ss (alloc_sector ss n)"
proof -
  from sectors_ok_Cons [OF assms(1)] obtain rest where ss: "ss = Sector 0 2 # rest" ..
  have s: "sorted_wrt Sector_lt (Sector 0 2 # rest)" "\<forall>s\<in>set (Sector 0 2 # rest). 0 < count s"
    using assms(1) by (simp_all add: sectors_ok_def ss)
  have a: "\<forall>t\<in>set ss. \<not> intersects (alloc_sector ss n) t"
    using alloc_no_intersect [OF s assms(2)] by (simp add: ss)
  have b: "2 \<le> offset (alloc_sector ss n)"
    using alloc_after_head [OF s, of n] by (simp add: ss Sector_end_def)
  have c: "\<exists>t\<in>set ss. intersects (Sector k (count (alloc_sector ss n))) t"
    if "k \<in> {2..<offset (alloc_sector ss n)}" for k
    using alloc_minimal [OF s assms(2), of k] that by (simp add: ss alloc_count)
  from a b c show ?thesis by (simp add: first_fit_def)
qed

lemma bisect_insort_ok:
  assumes ok: "sectors_ok ss" and cnt: "0 < count x" and off: "0 \<le> offset x"
    and free: "\<forall>t\<in>set ss. \<not> intersects x t"
  shows "sectors_ok (bisect_insort ss x)"
proof -
  have sorted: "sorted_wrt Sector_lt ss" and pos: "\<forall>s\<in>set ss. 0 < count s"
    and ne: "ss \<noteq> []" and hd: "hd ss = Sector 0 2"
    using ok by (simp_all add: sectors_ok_def)
  have nth_lt: "Sector_lt (ss ! i) (ss ! j)" if "i < j" "j < length ss" for i j
    using sorted that by (simp add: sorted_wrt_iff_nth_less)
  have mono: "\<forall>i j. i < j \<longrightarrow> j < length ss \<longrightarrow> Sector_lt x (ss ! i) \<longrightarrow> Sector_lt x (ss ! j)"
  proof (intro allI impI)
    fix i j assume ij: "i < j" "j < length ss" and lt: "Sector_lt x (ss ! i)"
    have "0 < count (ss ! i)" using pos ij by simp
    with nth_lt [OF ij] lt show "Sector_lt x (ss ! j)"
      by (simp add: Sector_lt_def)
  qed
  define k where "k = bisect_right ss x 0 (length ss)"
  have "0 \<le> k \<and> k \<le> length ss \<and> (\<forall>i<k. \<not> Sector_lt x (ss ! i)) \<and>
      (\<forall>i. k \<le> i \<and> i < length ss \<longrightarrow> Sector_lt x (ss ! i))"
    unfolding k_def
  proof (rule bisect_right_partition)
    show "\<forall>i j. i < j \<longrightarrow> j < length ss \<longrightarrow> Sector_lt x (ss ! i) \<longrightarrow> Sector_lt x (ss ! j)"
      by (rule mono)
    show "\<forall>i. length ss \<le> i \<and> i < length ss \<longrightarrow> Sector_lt x (ss ! i)"
      by auto
  qed simp_all
  then have part: "k \<le> length ss" "\<forall>i<k. \<not> Sector_lt x (ss ! i)"
    "\<forall>i. k \<le> i \<and> i < length ss \<longrightarrow> Sector_lt x (ss ! i)"
    by blast+
  have before: "Sector_lt t x" if "t \<in> set (take k ss)" for t
  proof -
    from that obtain i where i: "i < k" "i < length ss" "t = ss ! i"
      by (auto simp: in_set_conv_nth)
    then have "\<not> Sector_lt x t" using part(2) by simp
    moreover have "\<not> intersects x t" using free i by simp
    ultimately show ?thesis
      using cnt by (auto simp: Sector_lt_def intersects_iff)
  qed
  have after: "Sector_lt x t" if "t \<in> set (drop k ss)" for t
  proof -
    from that obtain i where "i < length (drop k ss)" "t = drop k ss ! i"
      by (metis in_set_conv_nth)
    then have "k + i < length ss" "t = ss ! (k + i)"
      using part(1) by simp_all
    then show ?thesis using part(3) by simp
  qed
  have across: "Sector_lt t u" if "t \<in> set (take k ss)" "u \<in> set (drop k ss)" for t u
  proof -
    have "sorted_wrt Sector_lt (take k ss @ drop k ss)" using sorted by simp
    then show ?thesis using that unfolding sorted_wrt_append by blast
  qed
  have "sorted_wrt Sector_lt (take k ss)" "sorted_wrt Sector_lt (drop k ss)"
    using sorted by (simp_all add: sorted_wrt_take sorted_wrt_drop)
  then have s': "sorted_wrt Sector_lt (take k ss @ x # drop k ss)"
    using before after across by (auto simp: sorted_wrt_append)
  have "\<not> Sector_lt x (ss ! 0)"
    using hd ne cnt off by (simp add: hd_conv_nth Sector_lt_def)
  then have "0 < k"
    using part(3) ne by (cases "k = 0") auto
  then have hd': "hd (take k ss @ x # drop k ss) = Sector 0 2"
    using hd ne by (cases ss) auto
  have pos': "\<forall>s\<in>set (take k ss @ x # drop k ss). 0 < count s"
    using pos cnt by (auto dest: in_set_takeD in_set_dropD)
  from s' hd' pos' show ?thesis
    by (simp add: sectors_ok_def bisect_insort_def k_def [symmetric])
qed

lemma sectors_ok_sorted_offsets: "sectors_ok ss \<Longrightarrow> sorted (map offset ss)"
proof -
  assume ok: "sectors_ok ss"
  then have s: "sorted_wrt Sector_lt ss" and p: "\<forall>s\<in>set ss. 0 < count s"
    by (simp_all add: sectors_ok_def)
  have "sorted_wrt (\<lambda>a b. offset a \<le> offset b) ss"
  proof (rule sorted_wrt_mono_rel [OF _ s])
    fix a b assume "a \<in> set ss" "b \<in> set ss" "Sector_lt a b"
    then show "offset a \<le> offset b" using p by (auto simp: Sector_lt_def)
  qed
  then show ?thesis by (simp add: sorted_map)
qed

lemma get_free_ok:
  assumes "sectors st = Some ss" "sectors_ok ss" "0 < n"
  shows "get_free n True st =
           (Inr (alloc_sector ss (ceil_pages n)),
            st\<lparr>sectors := Some (bisect_insort ss (alloc_sector ss (ceil_pages n)))\<rparr>)"
proof -
  have "ss \<noteq> []" using assms(2) by (simp add: sectors_ok_def)
  then show ?thesis
    using assms(1) by (simp add: get_free_def alloc_sector_def Let_def split: option.splits)
qed

lemma ceil_pages_pos: "0 < n \<Longrightarrow> 0 < ceil_pages n"
  by (simp add: ceil_pages_def)

lemma get_free_seq_ok:
  assumes "sectors st = Some ss" "sectors_ok ss" "\<forall>n\<in>set sizes. 0 < n"
  shows "\<exists>tr. get_free_seq sizes st = Inr tr \<and> length tr = length sizes \<and>
           (\<forall>i<length tr. count (snd (tr ! i)) = ceil_pages (sizes ! i) \<and>
              sectors_ok (fst (tr ! i)) \<and> set ss \<subseteq> set (fst (tr ! i)) \<and>
              first_fit (fst (tr ! i)) (snd (tr ! i))) \<and>
           (\<forall>i j. i < j \<and> j < length tr \<longrightarrow> snd (tr ! i) \<in> set (fst (tr ! j)))"
  using assms
proof (induction sizes arbitrary: st ss)
  case Nil
  then show ?case by simp
next
  case (Cons n ns)
  define s where "s = alloc_sector ss (ceil_pages n)"
  define ss' where "ss' = bisect_insort ss s"
  define st' where "st' = st\<lparr>sectors := Some ss'\<rparr>"
  have n: "0 < n" using Cons.prems(3) by simp
  then have pages: "0 < ceil_pages n" by (rule ceil_pages_pos)
  have gf: "get_free n True st = (Inr s, st')"
    using get_free_ok [OF Cons.prems(1,2) n] by (simp add: s_def ss'_def st'_def)
  have ff: "first_fit ss s"
    unfolding s_def using Cons.prems(2) pages by (rule alloc_first_fit)
  have cnt: "count s = ceil_pages n" by (simp add: s_def alloc_count)
  have ok': "sectors_ok ss'"
    unfolding ss'_def
    using Cons.prems(2) ff pages cnt by (intro bisect_insort_ok) (simp_all add: first_fit_def)
  have set': "set ss' = insert s (set ss)"
    by (simp add: ss'_def set_bisect_insort)
  have "sectors st' = Some ss'" by (simp add: st'_def)
  from Cons.IH [OF this ok'] Cons.prems(3) obtain tr
    where tr: "get_free_seq ns st' = Inr tr" and len: "length tr = length ns"
      and each: "\<forall>i<length tr. count (snd (tr ! i)) = ceil_pages (ns ! i) \<and>
              sectors_ok (fst (tr ! i)) \<and> set ss' \<subseteq> set (fst (tr ! i)) \<and>
              first_fit (fst (tr ! i)) (snd (tr ! i))"
      and earlier: "\<forall>i j. i < j \<and> j < length tr \<longrightarrow> snd (tr ! i) \<in> set (fst (tr ! j))"
    by auto
  let ?tr = "(ss, s) # tr"
  have run: "get_free_seq (n # ns) st = Inr ?tr"
    by (simp add: gf tr Cons.prems(1))
  have each': "count (snd (?tr ! i)) = ceil_pages ((n # ns) ! i) \<and>
              sectors_ok (fst (?tr ! i)) \<and> set ss \<subseteq> set (fst (?tr ! i)) \<and>
              first_fit (fst (?tr ! i)) (snd (?tr ! i))" if "i < length ?tr" for i
  proof (cases i)
    case 0
    then show ?thesis using cnt Cons.prems(2) ff by simp
  next
    case (Suc i')
    then have "i' < length tr" using that by simp
    with each set' Suc show ?thesis by auto
  qed
  have earlier': "snd (?tr ! i) \<in> set (fst (?tr ! j))" if "i < j" "j < length ?tr" for i j
  proof -
    from that obtain j' where j: "j = Suc j'" "j' < length tr"
      by (cases j) auto
    show ?thesis
    proof (cases i)
      case 0
      have "s \<in> set ss'" by (simp add: set')
      then show ?thesis using each j 0 by auto
    next
      case (Suc i')
      then show ?thesis using earlier that j by auto
    qed
  qed
  from run len each' earlier' show ?case
    by (intro exI [of _ ?tr]) simp
qed

lemma sectors_ok_seed: "sectors_ok [Sector 0 2]"
  by (simp add: sectors_ok_def)

section \<open>Opening a region file\<close>

lemma entry_at_fields:
  "4 * i + 4 \<le> length bs \<Longrightarrow>
   entry_at bs i =
     (if table_offset bs i \<ge> 2 \<and> table_count bs i > 0
      then Some (Sector (table_offset bs i) (table_count bs i)) else None)"
  by (simp add: entry_at_def decode_entry_def read_entry_def f_open_def f_read_def Let_def
      table_offset_def table_count_def drop_take min_def add.commute)

lemma read_entry_at:
  assumes "4 * i + 4 \<le> length bs"
  shows "read_entry \<lparr>content = bs, pos = 4 * i\<rparr> = (entry_at bs i, \<lparr>content = bs, pos = 4 * i + 4\<rparr>)"
  using assms
  by (auto simp: entry_at_def decode_entry_def read_entry_def f_open_def f_read_def Let_def
      drop_take min_def add.commute)

lemma init_step_at:
  assumes "4 * i + 4 \<le> length bs"
  shows "init_step i (\<lparr>content = bs, pos = 4 * i\<rparr>, cs, ss) =
           (\<lparr>content = bs, pos = 4 * Suc i\<rparr>, cs[i := entry_at bs i], insert_entry bs i ss)"
  using read_entry_at [OF assms]
  by (simp add: init_step_def insert_entry_def split: option.splits)

lemma init_loop:
  assumes "4 * k \<le> length bs"
  shows "fold init_step [0..<k] (\<lparr>content = bs, pos = 0\<rparr>, cs0, ss0) =
           (\<lparr>content = bs, pos = 4 * k\<rparr>,
            fold (\<lambda>j cs. cs[j := entry_at bs j]) [0..<k] cs0,
            fold (insert_entry bs) [0..<k] ss0)"
  using assms
proof (induction k)
  case 0
  then show ?case by simp
next
  case (Suc k)
  then have "4 * k + 4 \<le> length bs" by simp
  from init_step_at [OF this] Suc show ?case by simp
qed

lemma fold_update_nth:
  "k \<le> length cs \<Longrightarrow>
   fold (\<lambda>j cs. cs[j := g j]) [0..<k] cs = map (\<lambda>j. if j < k then g j else cs ! j) [0..<length cs]"
proof (induction k)
  case 0
  then show ?case by (simp add: map_nth)
next
  case (Suc k)
  let ?m = "map (\<lambda>j. if j < k then g j else cs ! j) [0..<length cs]"
  have step: "fold (\<lambda>j cs. cs[j := g j]) [0..<Suc k] cs = ?m[k := g k]"
    using Suc by simp
  have "?m[k := g k] = map (\<lambda>j. if j < Suc k then g j else cs ! j) [0..<length cs]"
  proof (rule nth_equalityI)
    show "length (?m[k := g k]) = length (map (\<lambda>j. if j < Suc k then g j else cs ! j) [0..<length cs])"
      by simp
  next
    fix i
    assume "i < length (?m[k := g k])"
    then have i: "i < length cs" by simp
    show "?m[k := g k] ! i = map (\<lambda>j. if j < Suc k then g j else cs ! j) [0..<length cs] ! i"
      using i by (cases "i = k") (simp_all add: less_Suc_eq)
  qed
  with step show ?case by simp
qed

lemma set_insert_entry:
  "set (insert_entry bs j ss) = set ss \<union> {s. entry_at bs j = Some s}"
  by (auto simp: insert_entry_def set_bisect_insort split: option.splits)

lemma set_fold_insert_entry:
  "set (fold (insert_entry bs) [0..<k] ss0) = set ss0 \<union> {s. \<exists>j<k. entry_at bs j = Some s}"
proof (induction k)
  case 0
  then show ?case by simp
next
  case (Suc k)
  show ?case
    by (auto simp: Suc set_insert_entry less_Suc_eq)
qed

lemma fold_insert_entry_none:
  "\<forall>j<k. entry_at bs j = None \<Longrightarrow> fold (insert_entry bs) [0..<k] ss0 = ss0"
  by (induction k) (simp_all add: insert_entry_def)

lemma fold_insert_entry_tail:
  assumes "\<forall>j. k \<le> j \<and> j < k + d \<longrightarrow> entry_at bs j = None"
  shows "fold (insert_entry bs) [0..<k + d] ss = fold (insert_entry bs) [0..<k] ss"
  using assms
proof (induction d)
  case 0
  then show ?case by simp
next
  case (Suc d)
  then have "entry_at bs (k + d) = None" by simp
  then have step: "insert_entry bs (k + d) t = t" for t
    by (simp add: insert_entry_def)
  have "fold (insert_entry bs) [0..<k + d] ss = fold (insert_entry bs) [0..<k] ss"
    using Suc by simp
  then show ?case by (simp add: step)
qed

lemma entry_at_Some: "entry_at bs j = Some s \<Longrightarrow> 2 \<le> offset s \<and> 0 < count s"
  by (auto simp: entry_at_def decode_entry_def read_entry_def Let_def split_beta split: if_splits)

lemma fold_insert_entry_ok:
  assumes "\<forall>i<k. \<forall>j<k. i \<noteq> j \<longrightarrow>
             (\<forall>s t. entry_at bs i = Some s \<longrightarrow> entry_at bs j = Some t \<longrightarrow> \<not> intersects s t)"
  shows "sectors_ok (fold (insert_entry bs) [0..<k] [Sector 0 2])"
  using assms
proof (induction k)
  case 0
  then show ?case by (simp add: sectors_ok_def)
next
  case (Suc k)
  let ?ss = "fold (insert_entry bs) [0..<k] [Sector 0 2]"
  have "\<forall>i<k. \<forall>j<k. i \<noteq> j \<longrightarrow>
      (\<forall>s t. entry_at bs i = Some s \<longrightarrow> entry_at bs j = Some t \<longrightarrow> \<not> intersects s t)"
    using Suc.prems by (meson less_SucI)
  then have ok: "sectors_ok ?ss"
    by (rule Suc.IH)
  show ?case
  proof (cases "entry_at bs k")
    case None
    then have "insert_entry bs k ?ss = ?ss" by (simp add: insert_entry_def)
    then show ?thesis using ok by simp
  next
    case (Some x)
    have x: "2 \<le> offset x" "0 < count x" using entry_at_Some [OF Some] by simp_all
    have "\<not> intersects x t" if "t \<in> set ?ss" for t
    proof -
      from that have "t = Sector 0 2 \<or> (\<exists>j<k. entry_at bs j = Some t)"
        by (auto simp: set_fold_insert_entry)
      then show ?thesis
      proof
        assume "t = Sector 0 2"
        then show ?thesis using x by (simp add: intersects_iff)
      next
        assume "\<exists>j<k. entry_at bs j = Some t"
        then obtain j where j: "j < k" "entry_at bs j = Some t" by blast
        then have "k < Suc k" "j < Suc k" "k \<noteq> j" by simp_all
        with Suc.prems Some j(2) show ?thesis by blast
      qed
    qed
    then have "sectors_ok (bisect_insort ?ss x)"
      using ok x by (intro bisect_insort_ok) simp_all
    moreover have "insert_entry bs k ?ss = bisect_insort ?ss x"
      using Some by (simp add: insert_entry_def)
    ultimately show ?thesis by simp
  qed
qed

lemma RegionFile_init_valid:
  assumes "8192 \<le> length bs" "length bs mod 4096 = 0"
  shows "RegionFile_init (RegularFile bs) =
           Inr \<lparr>disk = RegularFile bs, chunks = map (entry_at bs) [0..<1024],
                sectors = Some (fold (insert_entry bs) [0..<1024] [Sector 0 2])\<rparr>"
proof -
  have "4 * 1024 \<le> length bs" using assms by simp
  from init_loop [OF this]
  have "fold init_step [0..<1024] (f_open bs, replicate 1024 None, [Sector 0 2]) =
          (\<lparr>content = bs, pos = 4096\<rparr>,
           fold (\<lambda>j cs. cs[j := entry_at bs j]) [0..<1024] (replicate 1024 None),
           fold (insert_entry bs) [0..<1024] [Sector 0 2])"
    by (simp add: f_open_def del: upt_rec_numeral)
  moreover have "fold (\<lambda>j cs. cs[j := entry_at bs j]) [0..<1024] (replicate 1024 None) =
      map (entry_at bs) [0..<1024]"
    using fold_update_nth [of 1024 "replicate 1024 None" "entry_at bs"]
    by (simp del: upt_rec_numeral)
  ultimately show ?thesis
    using assms by (simp add: RegionFile_init_def del: upt_rec_numeral)
qed

lemma from_bytes_big_zeros: "from_bytes_big (replicate n 0) = 0"
  by (induction n) (simp_all add: from_bytes_big_def)

lemma entry_at_zeros:
  assumes "4 * i + 4 \<le> n"
  shows "entry_at (replicate n 0) i = None"
proof -
  have "table_offset (replicate n 0) i = 0"
    by (simp add: table_offset_def from_bytes_big_zeros)
  with assms show ?thesis by (simp add: entry_at_fields)
qed

lemma table_offset_zero_suffix:
  assumes "length pre \<le> 4 * j"
  shows "table_offset (pre @ replicate n 0) j = 0"
proof -
  have "take 3 (drop (4 * j) (pre @ replicate n 0)) = replicate (min 3 (n - (4 * j - length pre))) 0"
    using assms by simp
  then show ?thesis
    by (simp only: table_offset_def from_bytes_big_zeros)
qed

lemma entry_at_zero_suffix:
  assumes "length pre \<le> 4 * j" "4 * j + 4 \<le> length pre + n"
  shows "entry_at (pre @ replicate n 0) j = None"
  using assms table_offset_zero_suffix [OF assms(1), of n]
  by (simp add: entry_at_fields)

lemma init_fresh: "RegionFile_init (RegularFile (replicate 8192 0)) = Inr fresh_state"
proof -
  have none: "entry_at (replicate 8192 0) j = None" if "j < 1024" for j
    using that by (intro entry_at_zeros) simp
  have "map (entry_at (replicate 8192 0)) [0..<1024] = map (\<lambda>_. None) [0..<1024]"
    by (rule map_cong) (simp_all add: none del: upt_rec_numeral)
  then have cs: "map (entry_at (replicate 8192 0)) [0..<1024] = replicate 1024 None"
    by (simp add: map_replicate_const del: upt_rec_numeral)
  have ss: "fold (insert_entry (replicate 8192 0)) [0..<1024] [Sector 0 2] = [Sector 0 2]"
    by (rule fold_insert_entry_none) (simp add: none)
  show ?thesis
    using RegionFile_init_valid [of "replicate 8192 0"] cs ss
    by (simp add: fresh_state_def del: upt_rec_numeral)
qed

lemma init_no_entries:
  assumes "8192 \<le> length bs" "length bs mod 4096 = 0"
    and none: "\<And>j. j < 1024 \<Longrightarrow> entry_at bs j = None"
  shows "RegionFile_init (RegularFile bs) =
           Inr \<lparr>disk = RegularFile bs, chunks = replicate 1024 None, sectors = Some [Sector 0 2]\<rparr>"
proof -
  have "map (entry_at bs) [0..<1024] = map (\<lambda>_. None) [0..<1024]"
    by (rule map_cong) (simp_all add: none del: upt_rec_numeral)
  then have cs: "map (entry_at bs) [0..<1024] = replicate 1024 None"
    by (simp add: map_replicate_const del: upt_rec_numeral)
  have ss: "fold (insert_entry bs) [0..<1024] [Sector 0 2] = [Sector 0 2]"
    by (rule fold_insert_entry_none) (simp add: none)
  show ?thesis
    using RegionFile_init_valid [OF assms(1,2)] cs ss
    by (simp del: upt_rec_numeral)
qed

lemma init_chunk_nth:
  assumes "8192 \<le> length bs" "length bs mod 4096 = 0" "i < 1024"
  shows "\<not> isl (RegionFile_init (RegularFile bs))"
    and "disk (projr (RegionFile_init (RegularFile bs))) = RegularFile bs"
    and "chunks (projr (RegionFile_init (RegularFile bs))) ! i = entry_at bs i"
  using RegionFile_init_valid [OF assms(1,2)] assms(3)
  by (simp_all del: upt_rec_numeral)

lemma offset_one_fields:
  "table_offset offset_one_file 0 = 1" "table_count offset_one_file 0 = 1"
  "8192 \<le> length offset_one_file" "length offset_one_file mod 4096 = 0"
  by (simp_all add: table_offset_def table_count_def offset_one_file_def from_bytes_big_def)

lemma one_chunk_fields:
  "table_offset one_chunk_file 0 = 2" "table_count one_chunk_file 0 = 1"
  "8192 \<le> length one_chunk_file" "length one_chunk_file mod 4096 = 0"
  by (simp_all add: table_offset_def table_count_def one_chunk_file_def from_bytes_big_def)

text \<open>
  C3, as the code has it. Opening a regular file whose size is below 8192 or not a
  multiple of 4096 fails with \<open>Exception('Invalid region file!')\<close>, the same value
  whatever the size is; opening a file whose size is a multiple of 4096 and at least
  8192 succeeds.
\<close>

theorem open_size_check:
  "(length bs < 8192 \<or> length bs mod 4096 \<noteq> 0 \<longrightarrow>
      RegionFile_init (RegularFile bs) = Inl (Exception ''Invalid region file!'')) \<and>
   (8192 \<le> length bs \<and> length bs mod 4096 = 0 \<longrightarrow>
      (\<exists>st. RegionFile_init (RegularFile bs) = Inr st \<and> disk st = RegularFile bs))"
proof (intro conjI impI)
  assume "length bs < 8192 \<or> length bs mod 4096 \<noteq> 0"
  then show "RegionFile_init (RegularFile bs) = Inl (Exception ''Invalid region file!'')"
    by (auto simp: RegionFile_init_def)
next
  assume "8192 \<le> length bs \<and> length bs mod 4096 = 0"
  then show "\<exists>st. RegionFile_init (RegularFile bs) = Inr st \<and> disk st = RegularFile bs"
    using RegionFile_init_valid [of bs] by simp
qed

theorem open_size_check_witness:
  "length (replicate 8191 (0::byte)) < 8192 \<and>
   RegionFile_init (RegularFile (replicate 8191 0)) = Inl (Exception ''Invalid region file!'') \<and>
   length (replicate 8192 (0::byte)) mod 4096 = 0 \<and>
   (\<exists>st. RegionFile_init (RegularFile (replicate 8192 0)) = Inr st)"
  using open_size_check [of "replicate 8191 0"] open_size_check [of "replicate 8192 0"]
  by auto

theorem open_size_check_counterexample:
  "RegionFile_init (RegularFile (replicate 8191 0)) = Inl (Exception ''Invalid region file!'') \<and>
   RegionFile_init (RegularFile (replicate 4097 0)) = Inl (Exception ''Invalid region file!'')"
  by (simp add: RegionFile_init_def)

lemma init_two_entries:
  assumes "8192 \<le> length bs" "length bs mod 4096 = 0"
    and "entry_at bs 0 = Some a" "entry_at bs 1 = Some b"
    and "\<forall>j. 2 \<le> j \<and> j < 2 + 1022 \<longrightarrow> entry_at bs j = None"
  shows "RegionFile_init (RegularFile bs) =
           Inr \<lparr>disk = RegularFile bs, chunks = map (entry_at bs) [0..<1024],
                sectors = Some (bisect_insort (bisect_insort [Sector 0 2] a) b)\<rparr>"
proof -
  have "fold (insert_entry bs) [0..<2 + 1022] [Sector 0 2] =
          fold (insert_entry bs) [0..<2] [Sector 0 2]"
    using assms(5) by (rule fold_insert_entry_tail)
  moreover have "[0..<2] = [0, 1::nat]"
    by (simp add: upt_rec)
  ultimately have "fold (insert_entry bs) [0..<1024] [Sector 0 2] =
      bisect_insort (bisect_insort [Sector 0 2] a) b"
    using assms(3,4) by (simp add: insert_entry_def del: upt_rec_numeral)
  then show ?thesis
    using RegionFile_init_valid [OF assms(1,2)] by simp
qed

lemma two_entry_tail:
  assumes "length pre = 8" "4096 \<le> 8 + n"
  shows "\<forall>j. 2 \<le> j \<and> j < 2 + 1022 \<longrightarrow> entry_at (pre @ replicate n 0) j = None"
  using assms by (auto intro!: entry_at_zero_suffix)

lemma two_chunk_entries:
  "8192 \<le> length two_chunk_file" "length two_chunk_file mod 4096 = 0"
  "entry_at two_chunk_file 0 = Some (Sector 5 2)"
  "entry_at two_chunk_file 1 = Some (Sector 2 1)"
  unfolding two_chunk_file_def
  by (simp_all add: entry_at_def decode_entry_4 from_bytes_big_def)

lemma two_chunk_tail:
  "\<forall>j. 2 \<le> j \<and> j < 2 + 1022 \<longrightarrow> entry_at two_chunk_file j = None"
  unfolding two_chunk_file_def by (rule two_entry_tail) simp_all

lemma unsorted_entries:
  "8192 \<le> length unsorted_file" "length unsorted_file mod 4096 = 0"
  "entry_at unsorted_file 0 = Some (Sector 5 2)"
  "entry_at unsorted_file 1 = Some (Sector 2 10)"
  unfolding unsorted_file_def
  by (simp_all add: entry_at_def decode_entry_4 from_bytes_big_def)

lemma unsorted_tail:
  "\<forall>j. 2 \<le> j \<and> j < 2 + 1022 \<longrightarrow> entry_at unsorted_file j = None"
  unfolding unsorted_file_def by (rule two_entry_tail) simp_all

lemma overlap_entries:
  "8192 \<le> length overlap_file" "length overlap_file mod 4096 = 0"
  "entry_at overlap_file 0 = Some (Sector 2 5)"
  "entry_at overlap_file 1 = Some (Sector 3 1)"
  unfolding overlap_file_def
  by (simp_all add: entry_at_def decode_entry_4 from_bytes_big_def)

lemma overlap_tail:
  "\<forall>j. 2 \<le> j \<and> j < 2 + 1022 \<longrightarrow> entry_at overlap_file j = None"
  unfolding overlap_file_def by (rule two_entry_tail) simp_all

lemma two_chunk_sectors:
  "bisect_insort (bisect_insort [Sector 0 2] (Sector 5 2)) (Sector 2 1) =
     [Sector 0 2, Sector 2 1, Sector 5 2]"
  by (simp add: bisect_insort_def bisect_right.simps Sector_lt_def)

lemma unsorted_sectors:
  "bisect_insort (bisect_insort [Sector 0 2] (Sector 5 2)) (Sector 2 10) =
     [Sector 0 2, Sector 5 2, Sector 2 10]"
  by (simp add: bisect_insort_def bisect_right.simps Sector_lt_def)

lemma overlap_sectors:
  "bisect_insort (bisect_insort [Sector 0 2] (Sector 2 5)) (Sector 3 1) =
     [Sector 0 2, Sector 2 5, Sector 3 1]"
  by (simp add: bisect_insort_def bisect_right.simps Sector_lt_def)

lemma chunks_disjoint_nth:
  assumes "chunks_disjoint cs" "i < length cs" "j < length cs" "i \<noteq> j"
    "cs ! i = Some s" "cs ! j = Some t"
  shows "\<not> intersects s t"
  using assms unfolding chunks_disjoint_def by fastforce

lemma init_sectors_ok:
  assumes "chunks_disjoint (map (entry_at bs) [0..<1024])"
  shows "sectors_ok (fold (insert_entry bs) [0..<1024] [Sector 0 2])"
proof (rule fold_insert_entry_ok, intro allI impI)
  fix i j s t
  assume h: "i < 1024" "j < 1024" "i \<noteq> j" "entry_at bs i = Some s" "entry_at bs j = Some t"
  let ?cs = "map (entry_at bs) [0..<1024]"
  have "i < length ?cs" "j < length ?cs" "?cs ! i = Some s" "?cs ! j = Some t"
    using h by (simp_all del: upt_rec_numeral)
  with assms h(3) show "\<not> intersects s t"
    by (intro chunks_disjoint_nth [of ?cs i j])
qed

lemma two_chunk_disjoint: "chunks_disjoint (map (entry_at two_chunk_file) [0..<1024])"
proof -
  have none: "entry_at two_chunk_file j = None" if "2 \<le> j" "j < 1024" for j
    using two_chunk_tail that by simp
  have "case (entry_at two_chunk_file i, entry_at two_chunk_file j) of
          (Some s, Some t) \<Rightarrow> \<not> intersects s t | _ \<Rightarrow> True"
    if "i < 1024" "j < 1024" "i \<noteq> j" for i j
  proof -
    show ?thesis
    proof (cases "2 \<le> i")
      case True
      then show ?thesis using none [OF _ that(1)] by simp
    next
      case small_i: False
      show ?thesis
      proof (cases "2 \<le> j")
        case True
        then show ?thesis using none [OF _ that(2)] by (simp split: option.splits)
      next
        case False
        with small_i that(3) have "(i = 0 \<and> j = 1) \<or> (i = 1 \<and> j = 0)" by arith
        then show ?thesis using two_chunk_entries(3,4) by (auto simp: intersects_iff)
      qed
    qed
  qed
  then show ?thesis
    by (simp add: chunks_disjoint_def del: upt_rec_numeral)
qed

lemma init_chunks_eq:
  assumes "RegionFile_init (RegularFile bs) = Inr st"
  shows "8192 \<le> length bs \<and> length bs mod 4096 = 0 \<and>
         st = \<lparr>disk = RegularFile bs, chunks = map (entry_at bs) [0..<1024],
               sectors = Some (fold (insert_entry bs) [0..<1024] [Sector 0 2])\<rparr>"
proof -
  have valid: "8192 \<le> length bs \<and> length bs mod 4096 = 0"
    using assms by (auto simp: RegionFile_init_def Let_def split: if_splits)
  then show ?thesis
    using RegionFile_init_valid [of bs] assms by simp
qed

text \<open>
  C4, as the code has it. On open, slot \<open>i\<close> is left empty exactly when its entry
  has \<open>offset < 2\<close> or \<open>count = 0\<close>; every other entry becomes
  \<open>Sector(offset, count)\<close> in \<open>chunks[i]\<close> and is put into \<open>sectors\<close> by
  \<open>bisect.insort\<close>, slot after slot, starting from \<open>[Sector(0, 2)]\<close>. The list holds
  \<open>Sector(0, 2)\<close> and exactly the sectors of the populated slots; it is in order
  (each sector ends at or before the next begins, so the offsets ascend) whenever no
  two populated slots intersect.
\<close>

theorem init_populates_slots:
  assumes "8192 \<le> length bs" "length bs mod 4096 = 0"
  shows "\<exists>st ss. RegionFile_init (RegularFile bs) = Inr st \<and> length (chunks st) = 1024 \<and>
           (\<forall>i<1024. chunks st ! i =
              (if table_offset bs i \<ge> 2 \<and> table_count bs i > 0
               then Some (Sector (table_offset bs i) (table_count bs i)) else None)) \<and>
           sectors st = Some ss \<and>
           ss = fold (\<lambda>i acc. case chunks st ! i of None \<Rightarrow> acc | Some s \<Rightarrow> bisect_insort acc s)
                  [0..<1024] [Sector 0 2] \<and>
           set ss = insert (Sector 0 2) {s. \<exists>i<1024. chunks st ! i = Some s} \<and>
           (chunks_disjoint (chunks st) \<longrightarrow> sectors_ok ss \<and> sorted (map offset ss))"
proof -
  let ?cs = "map (entry_at bs) [0..<1024]"
  let ?ss = "fold (insert_entry bs) [0..<1024] [Sector 0 2]"
  let ?st = "\<lparr>disk = RegularFile bs, chunks = ?cs, sectors = Some ?ss\<rparr>"
  have init: "RegionFile_init (RegularFile bs) = Inr ?st"
    using assms by (rule RegionFile_init_valid)
  have nth: "chunks ?st ! i = entry_at bs i" if "i < 1024" for i
    using that by (simp del: upt_rec_numeral)
  have fields: "chunks ?st ! i =
      (if table_offset bs i \<ge> 2 \<and> table_count bs i > 0
       then Some (Sector (table_offset bs i) (table_count bs i)) else None)" if "i < 1024" for i
  proof -
    have "4 * i + 4 \<le> length bs" using that assms by simp
    then show ?thesis using nth [OF that] by (simp only: entry_at_fields)
  qed
  have "set ?ss = insert (Sector 0 2) {s. \<exists>i<1024. entry_at bs i = Some s}"
    by (simp add: set_fold_insert_entry del: upt_rec_numeral)
  also have "{s. \<exists>i<1024. entry_at bs i = Some s} = {s. \<exists>i<1024. chunks ?st ! i = Some s}"
    using nth by auto
  finally have sets: "set ?ss = insert (Sector 0 2) {s. \<exists>i<1024. chunks ?st ! i = Some s}" .
  have len: "length (chunks ?st) = 1024" by (simp del: upt_rec_numeral)
  have sec: "sectors ?st = Some ?ss" by simp
  have as_fold: "?ss = fold (\<lambda>i acc. case chunks ?st ! i of None \<Rightarrow> acc | Some s \<Rightarrow> bisect_insort acc s)
                  [0..<1024] [Sector 0 2]"
  proof (rule fold_cong)
    fix i assume "i \<in> set [0..<1024]"
    then have "i < 1024" by (simp del: upt_rec_numeral)
    from nth [OF this]
    show "insert_entry bs i = (\<lambda>acc. case chunks ?st ! i of None \<Rightarrow> acc | Some s \<Rightarrow> bisect_insort acc s)"
      by (simp only: insert_entry_def fun_eq_iff) simp
  qed simp_all
  have ordered: "sectors_ok ?ss \<and> sorted (map offset ?ss)" if "chunks_disjoint (chunks ?st)"
  proof -
    have "sectors_ok ?ss" using that by (intro init_sectors_ok) simp
    then show ?thesis by (simp add: sectors_ok_sorted_offsets)
  qed
  from init len fields sec as_fold sets ordered show ?thesis by blast
qed

lemma two_chunk_init:
  "RegionFile_init (RegularFile two_chunk_file) =
     Inr \<lparr>disk = RegularFile two_chunk_file, chunks = map (entry_at two_chunk_file) [0..<1024],
          sectors = Some [Sector 0 2, Sector 2 1, Sector 5 2]\<rparr>"
  using init_two_entries [OF two_chunk_entries two_chunk_tail] by (simp only: two_chunk_sectors)

lemma unsorted_init:
  "RegionFile_init (RegularFile unsorted_file) =
     Inr \<lparr>disk = RegularFile unsorted_file, chunks = map (entry_at unsorted_file) [0..<1024],
          sectors = Some [Sector 0 2, Sector 5 2, Sector 2 10]\<rparr>"
  using init_two_entries [OF unsorted_entries unsorted_tail] by (simp only: unsorted_sectors)

lemma overlap_init:
  "RegionFile_init (RegularFile overlap_file) =
     Inr \<lparr>disk = RegularFile overlap_file, chunks = map (entry_at overlap_file) [0..<1024],
          sectors = Some [Sector 0 2, Sector 2 5, Sector 3 1]\<rparr>"
  using init_two_entries [OF overlap_entries overlap_tail] by (simp only: overlap_sectors)

theorem init_populates_slots_witness:
  "8192 \<le> length two_chunk_file \<and> length two_chunk_file mod 4096 = 0 \<and>
   \<not> isl (RegionFile_init (RegularFile two_chunk_file)) \<and>
   chunks (projr (RegionFile_init (RegularFile two_chunk_file))) ! 0 = Some (Sector 5 2) \<and>
   chunks (projr (RegionFile_init (RegularFile two_chunk_file))) ! 1 = Some (Sector 2 1) \<and>
   chunks (projr (RegionFile_init (RegularFile two_chunk_file))) ! 2 = None \<and>
   chunks_disjoint (chunks (projr (RegionFile_init (RegularFile two_chunk_file)))) \<and>
   sectors (projr (RegionFile_init (RegularFile two_chunk_file))) =
     Some [Sector 0 2, Sector 2 1, Sector 5 2] \<and>
   sectors_ok [Sector 0 2, Sector 2 1, Sector 5 2] \<and>
   sorted (map offset [Sector 0 2, Sector 2 1, Sector 5 2])"
proof -
  let ?st = "projr (RegionFile_init (RegularFile two_chunk_file))"
  from init_populates_slots [OF two_chunk_entries(1,2)] obtain st ss
    where init: "RegionFile_init (RegularFile two_chunk_file) = Inr st"
      and ss: "sectors st = Some ss"
      and ordered: "chunks_disjoint (chunks st) \<longrightarrow> sectors_ok ss \<and> sorted (map offset ss)"
    by blast
  have st: "st = ?st" using init by simp
  have cs: "chunks ?st = map (entry_at two_chunk_file) [0..<1024]"
    and sec: "sectors ?st = Some [Sector 0 2, Sector 2 1, Sector 5 2]"
    by (simp_all add: two_chunk_init)
  have dis: "chunks_disjoint (chunks ?st)"
    by (simp only: cs two_chunk_disjoint)
  have "ss = [Sector 0 2, Sector 2 1, Sector 5 2]"
    using ss sec st by simp
  with ordered dis st
  have ok: "sectors_ok [Sector 0 2, Sector 2 1, Sector 5 2]"
    "sorted (map offset [Sector 0 2, Sector 2 1, Sector 5 2])"
    by simp_all
  have c0: "chunks ?st ! 0 = Some (Sector 5 2)" "chunks ?st ! 1 = Some (Sector 2 1)"
    using two_chunk_entries(3,4) by (simp_all add: cs del: upt_rec_numeral)
  have c2: "chunks ?st ! 2 = None"
    using two_chunk_tail by (simp add: cs del: upt_rec_numeral)
  have "\<not> isl (RegionFile_init (RegularFile two_chunk_file))"
    by (simp add: two_chunk_init)
  with two_chunk_entries(1,2) c0 c2 dis sec ok show ?thesis by blast
qed

theorem init_populates_slots_counterexample:
  "table_offset offset_one_file 0 = 1 \<and> table_count offset_one_file 0 = 1 \<and>
   \<not> isl (RegionFile_init (RegularFile offset_one_file)) \<and>
   chunks (projr (RegionFile_init (RegularFile offset_one_file))) ! 0 = None \<and>
   \<not> isl (RegionFile_init (RegularFile unsorted_file)) \<and>
   sectors (projr (RegionFile_init (RegularFile unsorted_file))) =
     Some [Sector 0 2, Sector 5 2, Sector 2 10] \<and>
   \<not> sorted (map offset [Sector 0 2, Sector 5 2, Sector 2 10])"
  using init_chunk_nth [OF offset_one_fields(3,4), of 0]
    entry_at_fields [of 0 offset_one_file] offset_one_fields
  by (simp add: unsorted_init)

section \<open>Slots: \<open>has_chunk\<close> and \<open>delete_sector\<close>\<close>

lemma slot_index_range: "0 \<le> slot_index x z \<and> slot_index x z < 1024"
proof -
  have "0 \<le> x AND 31" "x AND 31 \<le> 31" "0 \<le> z AND 31" "z AND 31 \<le> 31"
    by (simp_all add: AND_upper2)
  then show ?thesis unfolding slot_index_def by linarith
qed

lemma slot_index_mod: "slot_index x z = x mod 32 + (z mod 32) * 32"
proof -
  have "k AND 31 = k mod 32" for k :: int
    using take_bit_eq_mask [of 5 k] by (simp add: take_bit_eq_mod mask_eq_exp_minus_1)
  then show ?thesis by (simp add: slot_index_def)
qed

lemma has_chunk_file:
  assumes "disk st = RegularFile bs"
  shows "has_chunk x z st = Inr (table_offset bs (nat (slot_index x z)) \<noteq> 0)"
proof -
  have "nat (slot_index x z * 4) = 4 * nat (slot_index x z)"
    using slot_index_range [of x z] by simp
  then show ?thesis
    using assms
    by (simp add: has_chunk_def f_seek_def f_open_def f_read_def Let_def table_offset_def)
qed

text \<open>
  C10. On a valid region file \<open>has_chunk(x, z)\<close> reads slot
  \<open>x mod 32 + (z mod 32) * 32\<close> and answers whether the three offset bytes there are
  nonzero, whatever the count byte is; so a slot whose entry has a nonzero offset and
  a zero count, or the offset 1, is present for \<open>has_chunk\<close> while \<open>__init__\<close> leaves
  \<open>chunks\<close> empty there.
\<close>

theorem has_chunk_offset_only:
  assumes "8192 \<le> length bs" "length bs mod 4096 = 0" "disk st = RegularFile bs"
    and "i = nat (x mod 32 + (z mod 32) * 32)"
  shows "i < 1024 \<and> has_chunk x z st = Inr (table_offset bs i \<noteq> 0) \<and>
         (table_offset bs i \<noteq> 0 \<and> (table_count bs i = 0 \<or> table_offset bs i = 1) \<longrightarrow>
            has_chunk x z st = Inr True \<and>
            (\<exists>st0. RegionFile_init (RegularFile bs) = Inr st0 \<and> chunks st0 ! i = None))"
proof -
  have slot: "i = nat (slot_index x z)"
    using assms(4) by (simp add: slot_index_mod)
  have i: "i < 1024"
    using slot_index_range [of x z] slot by linarith
  then have len: "4 * i + 4 \<le> length bs" using assms(1) by simp
  have hc: "has_chunk x z st = Inr (table_offset bs i \<noteq> 0)"
    using assms(3) slot by (simp add: has_chunk_file)
  have "chunks (projr (RegionFile_init (RegularFile bs))) ! i = None"
    if "table_count bs i = 0 \<or> table_offset bs i = 1"
    using that init_chunk_nth(3) [OF assms(1,2) i] entry_at_fields [OF len] by auto
  moreover have "RegionFile_init (RegularFile bs) = Inr (projr (RegionFile_init (RegularFile bs)))"
    using init_chunk_nth(1) [OF assms(1,2) i] by simp
  ultimately show ?thesis using hc i by auto
qed

lemma slot_33_fields:
  "8192 \<le> length slot_33_file" "length slot_33_file mod 4096 = 0"
  "table_offset slot_33_file 33 = 1" "table_count slot_33_file 33 = 1"
  by (simp_all add: table_offset_def table_count_def slot_33_file_def from_bytes_big_def)

lemma slot_33_others:
  "table_offset slot_33_file 0 = 0" "table_offset slot_33_file 1 = 0"
  by (simp_all add: table_offset_def slot_33_file_def from_bytes_big_zeros)

theorem has_chunk_offset_only_witness:
  "table_offset slot_33_file 33 = 1 \<and>
   has_chunk 1 1 (fresh_state\<lparr>disk := RegularFile slot_33_file\<rparr>) = Inr True \<and>
   has_chunk (- 31) 33 (fresh_state\<lparr>disk := RegularFile slot_33_file\<rparr>) = Inr True \<and>
   has_chunk 0 0 (fresh_state\<lparr>disk := RegularFile slot_33_file\<rparr>) = Inr False \<and>
   has_chunk 1 0 (fresh_state\<lparr>disk := RegularFile slot_33_file\<rparr>) = Inr False \<and>
   (\<exists>st0. RegionFile_init (RegularFile slot_33_file) = Inr st0 \<and> chunks st0 ! 33 = None)"
proof -
  let ?st = "fresh_state\<lparr>disk := RegularFile slot_33_file\<rparr>"
  note h = has_chunk_offset_only [OF slot_33_fields(1,2), of ?st]
  have a: "has_chunk 1 1 ?st = Inr True"
    "\<exists>st0. RegionFile_init (RegularFile slot_33_file) = Inr st0 \<and> chunks st0 ! 33 = None"
    using h [of 33 1 1] slot_33_fields(3,4) by simp_all
  have b: "has_chunk (- 31) 33 ?st = Inr True"
    using h [of 33 "- 31" 33] slot_33_fields(3,4) by simp
  have c: "has_chunk 0 0 ?st = Inr False"
    using h [of 0 0 0] slot_33_others(1) by simp
  have d: "has_chunk 1 0 ?st = Inr False"
    using h [of 1 1 0] slot_33_others(2) by simp
  from a b c d slot_33_fields(3) show ?thesis by simp
qed

text \<open>
  C7, as the code has it. \<open>delete_sector\<close> with an index outside \<open>[0, 1024)\<close>
  raises nothing for an existing path: the guard skips the body, the call returns and
  neither the file nor the object changes. Only a missing path is an error.
\<close>

theorem delete_sector_out_of_range:
  assumes "index < 0 \<or> 1024 \<le> index"
  shows "delete_sector index zero_data st =
           (if disk st = Missing then Inl FileNotFoundError else Inr (), st)"
  using assms by (auto simp: delete_sector_def)

theorem delete_sector_out_of_range_witness:
  "(1024::int) \<le> 2000 \<and> delete_sector 2000 True fresh_state = (Inr (), fresh_state)"
  using delete_sector_out_of_range [of 2000 True fresh_state]
  by (simp add: fresh_state_def)

theorem delete_sector_out_of_range_counterexample:
  "delete_sector 1024 False fresh_state = (Inr (), fresh_state) \<and>
   delete_sector (- 1) False fresh_state = (Inr (), fresh_state)"
  by (simp add: delete_sector_def fresh_state_def)

section \<open>Reading, deleting and writing chunks\<close>

lemma f_read_after_4:
  "fst (f_read 1 (snd (f_read 4 \<lparr>content = bs, pos = p\<rparr>))) = take 1 (drop (p + 4) bs)"
  by (cases "p + 4 \<le> length bs") (auto simp: f_read_def Let_def min_def)

lemma read_tag_fields:
  "from_bytes_big (fst (f_read 1 (snd (f_read 4 (f_seek (nat (off * 4096)) f))))) =
     record_tag (content f) off"
proof -
  have "f_seek (nat (off * 4096)) f = \<lparr>content = content f, pos = nat (off * 4096)\<rparr>"
    by (simp add: f_seek_def)
  then show ?thesis
    by (simp only: f_read_after_4 record_tag_def)
qed

lemma unknown_tag_raw:
  assumes "disk st = RegularFile bs" "i = nat (slot_index x z)"
    "table_offset bs i \<noteq> 0" "record_tag bs (table_offset bs i) \<notin> {1, 2, 3}"
  shows "read_chunk_raw c x z st = Inr None"
proof -
  have p: "nat (slot_index x z * 4) = 4 * i"
    using slot_index_range [of x z] assms(2) by simp
  have off: "from_bytes_big (fst (f_read 3 (f_seek (4 * i) (f_open bs)))) = table_offset bs i"
    by (simp add: f_read_def f_seek_def f_open_def table_offset_def Let_def)
  have c: "content (snd (f_read 3 (f_seek (4 * i) (f_open bs)))) = bs"
    by (simp add: f_read_def f_seek_def f_open_def Let_def)
  show ?thesis
    using assms(1,3,4) read_tag_fields [of "table_offset bs i" "snd (f_read 3 (f_seek (4 * i) (f_open bs)))"]
    by (simp add: read_chunk_raw_def p off c Let_def split_beta)
qed

lemma unknown_tag_doc:
  assumes "disk st = RegularFile bs" "i = nat (slot_index x z)"
    "table_offset bs i \<noteq> 0" "record_tag bs (table_offset bs i) \<notin> {1, 2, 3}"
  shows "read_chunk_tag c x z st = Inr None"
proof -
  have p: "nat (slot_index x z * 4) = 4 * i"
    using slot_index_range [of x z] assms(2) by simp
  have off: "from_bytes_big (fst (f_read 3 (f_seek (4 * i) (f_open bs)))) = table_offset bs i"
    by (simp add: f_read_def f_seek_def f_open_def table_offset_def Let_def)
  have c: "content (snd (f_read 3 (f_seek (4 * i) (f_open bs)))) = bs"
    by (simp add: f_read_def f_seek_def f_open_def Let_def)
  show ?thesis
    using assms(1,3,4) read_tag_fields [of "table_offset bs i" "snd (f_read 3 (f_seek (4 * i) (f_open bs)))"]
    by (simp add: read_chunk_tag_def p off c Let_def split_beta)
qed

text \<open>
  C5, as the code has it. When the slot's offset is nonzero and the tag byte of the
  record is none of 1, 2 and 3, \<open>read_chunk_raw\<close> and \<open>read_chunk_tag\<close> fall through
  their \<open>if\<close>/\<open>elif\<close> chain and return \<open>None\<close>, the result of an absent chunk; no
  error is raised.
\<close>

theorem unknown_tag_reads_absent:
  assumes "disk st = RegularFile bs" "i = nat (slot_index x z)"
    "table_offset bs i \<noteq> 0" "record_tag bs (table_offset bs i) \<notin> {1, 2, 3}"
  shows "read_chunk_raw c x z st = Inr None \<and> read_chunk_tag c x z st = Inr None"
  by (rule conjI [OF unknown_tag_raw [OF assms] unknown_tag_doc [OF assms]])

lemma unknown_tag_fields:
  "table_offset unknown_tag_file 0 = 2" "record_tag unknown_tag_file 2 = 9"
  "8192 \<le> length unknown_tag_file" "length unknown_tag_file mod 4096 = 0"
  by (simp_all add: table_offset_def record_tag_def unknown_tag_file_def from_bytes_big_def)

theorem unknown_tag_reads_absent_witness:
  "table_offset unknown_tag_file 0 \<noteq> 0 \<and>
   record_tag unknown_tag_file (table_offset unknown_tag_file 0) \<notin> {1, 2, 3} \<and>
   read_chunk_raw plain_codecs 0 0
     \<lparr>disk = RegularFile unknown_tag_file, chunks = (replicate 1024 None)[0 := Some (Sector 2 1)],
      sectors = Some [Sector 0 2, Sector 2 1]\<rparr> = Inr None \<and>
   read_chunk_tag plain_codecs 0 0
     \<lparr>disk = RegularFile unknown_tag_file, chunks = (replicate 1024 None)[0 := Some (Sector 2 1)],
      sectors = Some [Sector 0 2, Sector 2 1]\<rparr> = Inr None"
  using unknown_tag_reads_absent [of
      "\<lparr>disk = RegularFile unknown_tag_file, chunks = (replicate 1024 None)[0 := Some (Sector 2 1)],
        sectors = Some [Sector 0 2, Sector 2 1]\<rparr>" unknown_tag_file 0 0 0 plain_codecs]
  by (simp add: unknown_tag_fields slot_index_def)

theorem unknown_tag_reads_absent_counterexample:
  "record_tag unknown_tag_file 2 = 9 \<and>
   \<not> isl (RegionFile_init (RegularFile unknown_tag_file)) \<and>
   read_chunk_raw plain_codecs 0 0 (projr (RegionFile_init (RegularFile unknown_tag_file))) =
     Inr None"
  using unknown_tag_raw [of "projr (RegionFile_init (RegularFile unknown_tag_file))"
      unknown_tag_file 0 0 0 plain_codecs]
    init_chunk_nth(1,2) [OF unknown_tag_fields(3,4), of 0]
  by (simp add: unknown_tag_fields slot_index_def)

text \<open>
  C6 at a populated slot. The file \<open>one_chunk_file\<close> opens with
  \<open>chunks[0] = Sector(2, 1)\<close>; the first \<open>delete_sector(0)\<close> raises AttributeError
  at \<open>sect != None\<close>, changes nothing, and \<open>has_chunk(0, 0)\<close> is still true.
\<close>

theorem delete_sector_populated_raises:
  "\<not> isl (RegionFile_init (RegularFile one_chunk_file)) \<and>
   chunks (projr (RegionFile_init (RegularFile one_chunk_file))) ! 0 = Some (Sector 2 1) \<and>
   delete_sector 0 False (projr (RegionFile_init (RegularFile one_chunk_file))) =
     (Inl AttributeError, projr (RegionFile_init (RegularFile one_chunk_file))) \<and>
   has_chunk 0 0 (projr (RegionFile_init (RegularFile one_chunk_file))) = Inr True"
proof -
  let ?st = "projr (RegionFile_init (RegularFile one_chunk_file))"
  note st = init_chunk_nth [OF one_chunk_fields(3,4), of 0]
  have c0: "chunks ?st ! 0 = Some (Sector 2 1)"
    using st(3) entry_at_fields [of 0 one_chunk_file] one_chunk_fields by simp
  have del: "delete_sector 0 False ?st = (Inl AttributeError, ?st)"
    using st(2) c0 by (simp add: delete_sector_def ne_None_def)
  have has: "has_chunk 0 0 ?st = Inr True"
    using has_chunk_file [OF st(2), of 0 0] one_chunk_fields(1) by (simp add: slot_index_def)
  from st(1) c0 del has show ?thesis by simp
qed

lemma get_free_fresh:
  "get_free n True fresh_state =
     (Inr (Sector 2 (ceil_pages n)),
      fresh_state\<lparr>sectors := Some (bisect_insort [Sector 0 2] (Sector 2 (ceil_pages n)))\<rparr>)"
  by (simp add: get_free_def fresh_state_def Sector_end_def Let_def)

lemma read_chunk_tag_empty_file:
  "disk st = RegularFile [] \<Longrightarrow> read_chunk_tag c x z st = Inr None"
  by (simp add: read_chunk_tag_def f_read_def f_seek_def f_open_def Let_def from_bytes_big_def)

text \<open>
  What the \<open>with\<close> block of \<open>write_chunk_tag\<close> writes after its \<open>seek\<close>, whatever the
  four length bytes are: zeros up to the sector, the length, the tag, the padding. The
  location table is among the zeros, so a file written that way has no chunk at any
  slot; and no call of \<open>write_chunk_tag\<close> returns normally.
\<close>

lemma write_record_bytes:
  "content (f_write pad (f_write [2] (f_write b4 (f_seek p (f_open []))))) =
     replicate p 0 @ b4 @ [2] @ pad"
  by (simp add: f_write_def f_seek_def f_open_def Let_def)

lemma table_offset_zero_prefix:
  assumes "4096 \<le> p" "i < 1024"
  shows "table_offset (replicate p 0 @ rest) i = 0"
proof -
  have "take 3 (drop (4 * i) (replicate p 0 @ rest)) = replicate 3 0"
    using assms by (simp add: min_def)
  then show ?thesis
    by (simp only: table_offset_def from_bytes_big_zeros)
qed

lemma read_chunk_tag_table_zero:
  assumes "disk st = RegularFile bs" "table_offset bs (nat (slot_index x z)) = 0"
  shows "read_chunk_tag c x z st = Inr None"
proof -
  have p: "nat (slot_index x z * 4) = 4 * nat (slot_index x z)"
    using slot_index_range [of x z] by simp
  have "from_bytes_big (fst (f_read 3 (f_seek (4 * nat (slot_index x z)) (f_open bs)))) = 0"
    using assms(2) by (simp add: f_read_def f_seek_def f_open_def table_offset_def Let_def)
  then show ?thesis
    using assms(1) by (simp add: read_chunk_tag_def p Let_def split_beta)
qed

lemma header_only_record_reads_absent:
  assumes "2 \<le> off"
    and "disk st = RegularFile
           (content (f_write pad (f_write [2] (f_write b4 (f_seek (nat (off * 4096)) (f_open []))))))"
  shows "read_chunk_tag c x z st = Inr None"
proof -
  have "nat (slot_index x z) < 1024"
    using slot_index_range [of x z] by linarith
  moreover have "4096 \<le> nat (off * 4096)" using assms(1) by simp
  ultimately have "table_offset (replicate (nat (off * 4096)) 0 @ b4 @ [2] @ pad)
      (nat (slot_index x z)) = 0"
    by (intro table_offset_zero_prefix)
  then show ?thesis
    using assms(2) unfolding write_record_bytes by (rule read_chunk_tag_table_zero [rotated])
qed

lemma write_chunk_tag_never_returns:
  "fst (write_chunk_tag c x z d st) \<noteq> Inr ()"
  by (auto simp: write_chunk_tag_def write_record_def delete_sector_def ne_None_def
      int_to_bytes_positional_def Let_def split: option.splits prod.splits sum.splits if_splits)

text \<open>
  C1 on a freshly created region file. \<open>write_chunk_tag\<close> raises TypeError at
  \<open>to_bytes(4, 'big', False)\<close>, after mode \<open>'wb'\<close> has emptied the file, and
  \<open>read_chunk_tag\<close> at the same coordinates then finds no chunk: it returns \<open>None\<close>,
  not the document written.
\<close>

theorem write_then_read_absent:
  "fst (write_chunk_tag c x z d fresh_state) = Inl TypeError \<and>
   disk (snd (write_chunk_tag c x z d fresh_state)) = RegularFile [] \<and>
   read_chunk_tag c x z (snd (write_chunk_tag c x z d fresh_state)) = Inr None"
proof -
  have "nat (slot_index x z) < 1024"
    using slot_index_range [of x z] by linarith
  then have none: "chunks fresh_state ! nat (slot_index x z) = None"
    by (simp add: fresh_state_def)
  have d: "disk fresh_state = RegularFile (replicate 8192 0)"
    by (simp add: fresh_state_def)
  have w: "write_chunk_tag c x z d fresh_state =
      (Inl TypeError,
       fresh_state\<lparr>sectors := Some (bisect_insort [Sector 0 2]
            (Sector 2 (ceil_pages (int (length (zlib_compress c (nbt_dump c d))) + 5)))),
          disk := RegularFile []\<rparr>)"
    by (simp add: write_chunk_tag_def none d ne_None_def get_free_fresh write_record_def
        int_to_bytes_positional_def f_open_def Let_def)
  show ?thesis
    by (simp add: w read_chunk_tag_empty_file)
qed

section \<open>The allocator\<close>

lemma get_free_fresh_page: "fst (get_free 4096 True fresh_state) = Inr (Sector 2 1)"
  by (simp add: get_free_fresh ceil_pages_def)

lemma gap_run:
  assumes "sectors st = Some [Sector 0 2, Sector 2 1, Sector 5 2]"
  shows "get_free_seq [8192, 4096] st =
     Inr [([Sector 0 2, Sector 2 1, Sector 5 2], Sector 3 2),
          ([Sector 0 2, Sector 2 1, Sector 3 2, Sector 5 2], Sector 7 1)]"
proof -
  have ins: "bisect_insort [Sector 0 2, Sector 2 1, Sector 5 2] (Sector 3 2) =
      [Sector 0 2, Sector 2 1, Sector 3 2, Sector 5 2]"
    by (simp add: bisect_insort_def bisect_right.simps Sector_lt_def)
  show ?thesis
    using assms by (simp add: get_free_def ceil_pages_def Sector_end_def Let_def ins)
qed

lemma overlap_run:
  assumes "sectors st = Some [Sector 0 2, Sector 2 5, Sector 3 1]"
  shows "fst (get_free 4096 True st) = Inr (Sector 4 1)"
  using assms by (simp add: get_free_def ceil_pages_def Sector_end_def Let_def)

lemma zero_size_run:
  "get_free_seq [0, 4096] fresh_state =
     Inr [([Sector 0 2], Sector 2 0), ([Sector 0 2, Sector 2 0], Sector 2 1)]"
proof -
  have ins: "bisect_insort [Sector 0 2] (Sector 2 0) = [Sector 0 2, Sector 2 0]"
    by (simp add: bisect_insort_def bisect_right.simps Sector_lt_def)
  show ?thesis
    by (simp add: get_free_def fresh_state_def ceil_pages_def Sector_end_def Let_def ins)
qed

text \<open>
  C2, as the code has it. From an object whose \<open>sectors\<close> list is in order (seeded
  with \<open>Sector(0, 2)\<close>, every sector of at least one page, each ending at or before
  the next begins), a run of \<open>get_free\<close> calls for sizes from 1 to \<open>2 ^ 53\<close> bytes
  raises nothing; each call returns a sector of the required page count that is a first
  fit for the list it finds (it intersects no sector there and no smaller page offset
  from 2 on has room), the list stays in order and keeps every sector returned before,
  so a later sector never intersects an earlier one. Opening a file establishes that
  order whenever no two populated slots intersect, and on a freshly created file of
  8192 zero bytes the first \<open>get_free(4096)\<close> is \<open>Sector(2, 1)\<close>.
\<close>

theorem get_free_first_fit:
  "(sectors st = Some ss \<and> sectors_ok ss \<and> (\<forall>n\<in>set sizes. 0 < n \<and> n \<le> 2 ^ 53) \<longrightarrow>
      (\<exists>tr. get_free_seq sizes st = Inr tr \<and> length tr = length sizes \<and>
         (\<forall>i<length tr. count (snd (tr ! i)) = ceil_pages (sizes ! i) \<and>
            sectors_ok (fst (tr ! i)) \<and> set ss \<subseteq> set (fst (tr ! i)) \<and>
            first_fit (fst (tr ! i)) (snd (tr ! i))) \<and>
         (\<forall>i j. i < j \<and> j < length tr \<longrightarrow>
            snd (tr ! i) \<in> set (fst (tr ! j)) \<and> \<not> intersects (snd (tr ! j)) (snd (tr ! i))))) \<and>
   (RegionFile_init (RegularFile bs) = Inr st0 \<and> chunks_disjoint (chunks st0) \<longrightarrow>
      (\<exists>ss0. sectors st0 = Some ss0 \<and> sectors_ok ss0)) \<and>
   RegionFile_init (RegularFile (replicate 8192 0)) = Inr fresh_state \<and>
   sectors fresh_state = Some [Sector 0 2] \<and> sectors_ok [Sector 0 2] \<and>
   fst (get_free 4096 True fresh_state) = Inr (Sector 2 1)"
proof (intro conjI impI)
  assume h: "sectors st = Some ss \<and> sectors_ok ss \<and> (\<forall>n\<in>set sizes. 0 < n \<and> n \<le> 2 ^ 53)"
  then have "\<forall>n\<in>set sizes. 0 < n" by simp
  with h get_free_seq_ok [of st ss sizes] obtain tr
    where tr: "get_free_seq sizes st = Inr tr" "length tr = length sizes"
      and each: "\<forall>i<length tr. count (snd (tr ! i)) = ceil_pages (sizes ! i) \<and>
            sectors_ok (fst (tr ! i)) \<and> set ss \<subseteq> set (fst (tr ! i)) \<and>
            first_fit (fst (tr ! i)) (snd (tr ! i))"
      and earlier: "\<forall>i j. i < j \<and> j < length tr \<longrightarrow> snd (tr ! i) \<in> set (fst (tr ! j))"
    by blast
  have "\<not> intersects (snd (tr ! j)) (snd (tr ! i))" if "i < j" "j < length tr" for i j
  proof -
    have "snd (tr ! i) \<in> set (fst (tr ! j))" using earlier that by simp
    moreover have "first_fit (fst (tr ! j)) (snd (tr ! j))" using each that by simp
    ultimately show ?thesis by (simp add: first_fit_def)
  qed
  with tr each earlier
  show "\<exists>tr. get_free_seq sizes st = Inr tr \<and> length tr = length sizes \<and>
         (\<forall>i<length tr. count (snd (tr ! i)) = ceil_pages (sizes ! i) \<and>
            sectors_ok (fst (tr ! i)) \<and> set ss \<subseteq> set (fst (tr ! i)) \<and>
            first_fit (fst (tr ! i)) (snd (tr ! i))) \<and>
         (\<forall>i j. i < j \<and> j < length tr \<longrightarrow>
            snd (tr ! i) \<in> set (fst (tr ! j)) \<and> \<not> intersects (snd (tr ! j)) (snd (tr ! i)))"
    by (intro exI [of _ tr]) simp
next
  assume h: "RegionFile_init (RegularFile bs) = Inr st0 \<and> chunks_disjoint (chunks st0)"
  then have st0: "st0 = \<lparr>disk = RegularFile bs, chunks = map (entry_at bs) [0..<1024],
               sectors = Some (fold (insert_entry bs) [0..<1024] [Sector 0 2])\<rparr>"
    using init_chunks_eq [of bs st0] by simp
  then have "chunks_disjoint (map (entry_at bs) [0..<1024])" using h by simp
  then have "sectors_ok (fold (insert_entry bs) [0..<1024] [Sector 0 2])"
    by (rule init_sectors_ok)
  then show "\<exists>ss0. sectors st0 = Some ss0 \<and> sectors_ok ss0"
    by (simp add: st0)
next
  show "RegionFile_init (RegularFile (replicate 8192 0)) = Inr fresh_state"
    by (rule init_fresh)
next
  show "sectors fresh_state = Some [Sector 0 2]"
    by (simp add: fresh_state_def)
next
  show "sectors_ok [Sector 0 2]"
    by (rule sectors_ok_seed)
next
  show "fst (get_free 4096 True fresh_state) = Inr (Sector 2 1)"
    by (rule get_free_fresh_page)
qed

theorem get_free_first_fit_witness:
  "\<not> isl (RegionFile_init (RegularFile two_chunk_file)) \<and>
   chunks_disjoint (chunks (projr (RegionFile_init (RegularFile two_chunk_file)))) \<and>
   sectors (projr (RegionFile_init (RegularFile two_chunk_file))) =
     Some [Sector 0 2, Sector 2 1, Sector 5 2] \<and>
   sectors_ok [Sector 0 2, Sector 2 1, Sector 5 2] \<and>
   get_free_seq [8192, 4096] (projr (RegionFile_init (RegularFile two_chunk_file))) =
     Inr [([Sector 0 2, Sector 2 1, Sector 5 2], Sector 3 2),
          ([Sector 0 2, Sector 2 1, Sector 3 2, Sector 5 2], Sector 7 1)] \<and>
   first_fit [Sector 0 2, Sector 2 1, Sector 5 2] (Sector 3 2) \<and>
   first_fit [Sector 0 2, Sector 2 1, Sector 3 2, Sector 5 2] (Sector 7 1) \<and>
   \<not> intersects (Sector 7 1) (Sector 3 2)"
proof -
  let ?st = "projr (RegionFile_init (RegularFile two_chunk_file))"
  let ?ss = "[Sector 0 2, Sector 2 1, Sector 5 2]"
  let ?tr = "[(?ss, Sector 3 2), ([Sector 0 2, Sector 2 1, Sector 3 2, Sector 5 2], Sector 7 1)]"
  have opened: "RegionFile_init (RegularFile two_chunk_file) = Inr ?st"
    and nl: "\<not> isl (RegionFile_init (RegularFile two_chunk_file))"
    by (simp_all add: two_chunk_init)
  have s: "sectors ?st = Some ?ss"
    and cs: "chunks ?st = map (entry_at two_chunk_file) [0..<1024]"
    by (simp_all add: two_chunk_init)
  have dis: "chunks_disjoint (chunks ?st)"
    by (simp only: cs two_chunk_disjoint)
  note inst = get_free_first_fit [of ?st ?ss "[8192, 4096]" two_chunk_file ?st]
  have ok: "sectors_ok ?ss"
    using inst opened dis s by auto
  have sz: "\<forall>n\<in>set [8192, 4096 :: int]. 0 < n \<and> n \<le> 2 ^ 53" by simp
  have run: "get_free_seq [8192, 4096] ?st = Inr ?tr"
    using s by (rule gap_run)
  from inst s ok sz
  have each: "\<forall>i<length ?tr. first_fit (fst (?tr ! i)) (snd (?tr ! i))"
    and later: "\<forall>i j. i < j \<and> j < length ?tr \<longrightarrow> \<not> intersects (snd (?tr ! j)) (snd (?tr ! i))"
    unfolding run by auto
  have "first_fit ?ss (Sector 3 2)"
    using each [rule_format, of 0] by simp
  moreover have "first_fit [Sector 0 2, Sector 2 1, Sector 3 2, Sector 5 2] (Sector 7 1)"
    using each [rule_format, of 1] by simp
  moreover have "\<not> intersects (Sector 7 1) (Sector 3 2)"
    using later [rule_format, of 0 1] by simp
  ultimately show ?thesis using nl dis s ok run by simp
qed

theorem get_free_first_fit_counterexample:
  "\<not> isl (RegionFile_init (RegularFile overlap_file)) \<and>
   sectors (projr (RegionFile_init (RegularFile overlap_file))) =
     Some [Sector 0 2, Sector 2 5, Sector 3 1] \<and>
   sorted (map offset [Sector 0 2, Sector 2 5, Sector 3 1]) \<and>
   fst (get_free 4096 True (projr (RegionFile_init (RegularFile overlap_file)))) =
     Inr (Sector 4 1) \<and>
   intersects (Sector 4 1) (Sector 2 5) \<and>
   get_free_seq [0, 4096] fresh_state =
     Inr [([Sector 0 2], Sector 2 0), ([Sector 0 2, Sector 2 0], Sector 2 1)] \<and>
   intersects (Sector 2 1) (Sector 2 0)"
proof -
  let ?st = "projr (RegionFile_init (RegularFile overlap_file))"
  have s: "sectors ?st = Some [Sector 0 2, Sector 2 5, Sector 3 1]"
    and nl: "\<not> isl (RegionFile_init (RegularFile overlap_file))"
    by (simp_all add: overlap_init)
  have "fst (get_free 4096 True ?st) = Inr (Sector 4 1)"
    using s by (rule overlap_run)
  moreover have "intersects (Sector 4 1) (Sector 2 5)" "intersects (Sector 2 1) (Sector 2 0)"
    by (simp_all add: intersects_iff)
  ultimately show ?thesis using s nl zero_size_run by simp
qed

end
